theory Spec2Isabelle
  imports Complex_Main
begin

section \<open>Python values held in a document\<close>

text \<open>
  A document of \<^verbatim>\<open>yedit.py\<close> is whatever the YAML or JSON loader returns: \<^verbatim>\<open>None\<close>,
  booleans, integers, floats, strings, lists and dictionaries. Dictionaries keep their
  insertion order and are modelled as association lists with string keys (the only keys
  a path can address). Shared sub-objects (YAML anchors) are left out of the model: every
  value is a tree, and no two values are the same object.
\<close>

text \<open>
  A float is not-a-number (YAML \<^verbatim>\<open>.nan\<close>), an infinity with its sign (\<open>True\<close> for
  \<^verbatim>\<open>.inf\<close>), or finite; a finite float is given by its exact value, a rational number.
  The code never computes with floats, it only tests them for equality and for truth.
\<close>

datatype pyfloat = FNaN | FInf bool | FFin rat

datatype pyval =
    PNone
  | PBool bool
  | PInt int
  | PFloat pyfloat
  | PStr string
  | PList "pyval list"
  | PDict "(string \<times> pyval) list"

datatype error = IndexError | KeyError | TypeError | ValueError | YeditException | OSError

text \<open>\<^verbatim>\<open>isinstance(data, dict)\<close>, \<^verbatim>\<open>isinstance(data, list)\<close> and \<^verbatim>\<open>isinstance(data, (list, dict))\<close>.\<close>

fun is_dict :: "pyval \<Rightarrow> bool" where
  "is_dict (PDict kvs) = True"
| "is_dict v = False"

fun is_list :: "pyval \<Rightarrow> bool" where
  "is_list (PList xs) = True"
| "is_list v = False"

definition is_container :: "pyval \<Rightarrow> bool" where
  "is_container v = (is_list v \<or> is_dict v)"

text \<open>Python's truth value of an object, as used by \<^verbatim>\<open>if data:\<close>.\<close>

fun truthy :: "pyval \<Rightarrow> bool" where
  "truthy PNone = False"
| "truthy (PBool b) = b"
| "truthy (PInt n) = (n \<noteq> 0)"
| "truthy (PFloat f) = (f \<noteq> FFin 0)"
| "truthy (PStr s) = (s \<noteq> [])"
| "truthy (PList xs) = (xs \<noteq> [])"
| "truthy (PDict kvs) = (kvs \<noteq> [])"

text \<open>
  Python's \<^verbatim>\<open>==\<close>. \<^verbatim>\<open>bool\<close> is a subclass of \<^verbatim>\<open>int\<close>, so \<^verbatim>\<open>True == 1\<close> and
  \<^verbatim>\<open>False == 0\<close>; numbers compare by their exact value, and not-a-number equals nothing,
  itself included; lists compare element by element; dictionaries compare as sets of
  key/value pairs, whatever their order.
\<close>

fun bool_int :: "bool \<Rightarrow> int" where
  "bool_int True = 1"
| "bool_int False = 0"

fun float_eq :: "pyfloat \<Rightarrow> pyfloat \<Rightarrow> bool" where
  "float_eq (FInf a) (FInf b) = (a = b)"
| "float_eq (FFin p) (FFin q) = (p = q)"
| "float_eq f g = False"

fun py_eq :: "pyval \<Rightarrow> pyval \<Rightarrow> bool" where
  "py_eq PNone w = (w = PNone)"
| "py_eq (PBool a) w =
     (case w of
        PBool b \<Rightarrow> a = b
      | PInt n \<Rightarrow> bool_int a = n
      | PFloat g \<Rightarrow> float_eq (FFin (of_int (bool_int a))) g
      | _ \<Rightarrow> False)"
| "py_eq (PInt m) w =
     (case w of
        PBool b \<Rightarrow> m = bool_int b
      | PInt n \<Rightarrow> m = n
      | PFloat g \<Rightarrow> float_eq (FFin (of_int m)) g
      | _ \<Rightarrow> False)"
| "py_eq (PFloat f) w =
     (case w of
        PBool b \<Rightarrow> float_eq f (FFin (of_int (bool_int b)))
      | PInt n \<Rightarrow> float_eq f (FFin (of_int n))
      | PFloat g \<Rightarrow> float_eq f g
      | _ \<Rightarrow> False)"
| "py_eq (PStr s) w = (w = PStr s)"
| "py_eq (PList xs) w = (case w of PList ys \<Rightarrow> list_all2 py_eq xs ys | _ \<Rightarrow> False)"
| "py_eq (PDict kvs) w =
     (case w of
        PDict kws \<Rightarrow>
          length kvs = length kws \<and>
          list_all (\<lambda>(k, v). case map_of kws k of None \<Rightarrow> False | Some v' \<Rightarrow> py_eq v v') kvs
      | _ \<Rightarrow> False)"

subsection \<open>List and dictionary primitives\<close>

text \<open>
  \<^verbatim>\<open>xs[i]\<close>, \<^verbatim>\<open>xs[i] = v\<close>, \<^verbatim>\<open>del xs[i]\<close> and \<^verbatim>\<open>xs.pop(i)\<close>: a negative index counts
  from the end, and an index outside \<^verbatim>\<open>-len(xs) .. len(xs) - 1\<close> raises \<^verbatim>\<open>IndexError\<close>.
\<close>

definition norm_index :: "'a list \<Rightarrow> int \<Rightarrow> nat option" where
  "norm_index xs i =
     (let n = int (length xs); j = (if i < 0 then i + n else i)
      in if 0 \<le> j \<and> j < n then Some (nat j) else None)"

definition list_get :: "'a list \<Rightarrow> int \<Rightarrow> error + 'a" where
  "list_get xs i = (case norm_index xs i of None \<Rightarrow> Inl IndexError | Some j \<Rightarrow> Inr (xs ! j))"

definition list_set :: "'a list \<Rightarrow> int \<Rightarrow> 'a \<Rightarrow> error + 'a list" where
  "list_set xs i v = (case norm_index xs i of None \<Rightarrow> Inl IndexError | Some j \<Rightarrow> Inr (xs[j := v]))"

definition list_del :: "'a list \<Rightarrow> int \<Rightarrow> error + 'a list" where
  "list_del xs i =
     (case norm_index xs i of None \<Rightarrow> Inl IndexError | Some j \<Rightarrow> Inr (take j xs @ drop (Suc j) xs))"

text \<open>\<^verbatim>\<open>xs.insert(i, v)\<close> clamps the index instead of raising.\<close>

definition list_insert :: "'a list \<Rightarrow> int \<Rightarrow> 'a \<Rightarrow> 'a list" where
  "list_insert xs i v =
     (let n = int (length xs); j = (if i < 0 then max 0 (i + n) else min i n)
      in take (nat j) xs @ v # drop (nat j) xs)"

text \<open>\<^verbatim>\<open>xs.index(v)\<close>: the first position whose element equals \<^verbatim>\<open>v\<close>; \<^verbatim>\<open>None\<close> stands for
  the \<^verbatim>\<open>ValueError\<close> that every caller catches.\<close>

fun list_index :: "pyval list \<Rightarrow> pyval \<Rightarrow> nat option" where
  "list_index [] v = None"
| "list_index (x # xs) v =
     (if py_eq x v then Some 0 else map_option Suc (list_index xs v))"

text \<open>\<^verbatim>\<open>d[k] = v\<close> keeps the position of an existing key and puts a new key last;
  \<^verbatim>\<open>del d[k]\<close> removes the key.\<close>

fun dict_set :: "(string \<times> pyval) list \<Rightarrow> string \<Rightarrow> pyval \<Rightarrow> (string \<times> pyval) list" where
  "dict_set [] k v = [(k, v)]"
| "dict_set ((k', v') # kvs) k v =
     (if k' = k then (k, v) # kvs else (k', v') # dict_set kvs k v)"

fun dict_del :: "(string \<times> pyval) list \<Rightarrow> string \<Rightarrow> (string \<times> pyval) list" where
  "dict_del [] k = []"
| "dict_del ((k', v') # kvs) k = (if k' = k then dict_del kvs k else (k', v') # dict_del kvs k)"

text \<open>\<^verbatim>\<open>d.get(k)\<close> returns \<^verbatim>\<open>None\<close> for a missing key.\<close>

definition dict_get :: "(string \<times> pyval) list \<Rightarrow> string \<Rightarrow> pyval" where
  "dict_get kvs k = (case map_of kvs k of None \<Rightarrow> PNone | Some v \<Rightarrow> v)"

text \<open>\<^verbatim>\<open>d.update(e)\<close> assigns every pair of \<^verbatim>\<open>e\<close> in turn.\<close>

fun dict_update :: "(string \<times> pyval) list \<Rightarrow> (string \<times> pyval) list \<Rightarrow> (string \<times> pyval) list" where
  "dict_update kvs [] = kvs"
| "dict_update kvs ((k, v) # e) = dict_update (dict_set kvs k v) e"

text \<open>\<^verbatim>\<open>int(s)\<close> on a string matched by \<^verbatim>\<open>-?\d+\<close>.\<close>

definition digit_val :: "char \<Rightarrow> int" where
  "digit_val c = int (of_char c) - 48"

definition py_int :: "string \<Rightarrow> int" where
  "py_int s =
     (case s of
        [] \<Rightarrow> 0
      | c # ds \<Rightarrow>
          if c = CHR ''-'' then - foldl (\<lambda>n d. 10 * n + digit_val d) 0 ds
          else foldl (\<lambda>n d. 10 * n + digit_val d) 0 (c # ds))"

section \<open>The path grammar\<close>

subsection \<open>Regular expressions, as \<^verbatim>\<open>re.match\<close> needs them\<close>

text \<open>
  \<^verbatim>\<open>re.match(pattern + "$", key)\<close> answers whether some way of matching the pattern consumes
  the whole key, so it is decided by membership in the language of the pattern. The
  matcher below takes derivatives character by character.
\<close>

datatype rexp =
    Zero
  | Eps
  | Chars "char list"
  | AnyBut "char list"
  | Alt rexp rexp
  | Seq rexp rexp
  | Star rexp

fun nullable :: "rexp \<Rightarrow> bool" where
  "nullable Zero = False"
| "nullable Eps = True"
| "nullable (Chars cs) = False"
| "nullable (AnyBut cs) = False"
| "nullable (Alt r s) = (nullable r \<or> nullable s)"
| "nullable (Seq r s) = (nullable r \<and> nullable s)"
| "nullable (Star r) = True"

fun deriv :: "char \<Rightarrow> rexp \<Rightarrow> rexp" where
  "deriv c Zero = Zero"
| "deriv c Eps = Zero"
| "deriv c (Chars cs) = (if c \<in> set cs then Eps else Zero)"
| "deriv c (AnyBut cs) = (if c \<in> set cs then Zero else Eps)"
| "deriv c (Alt r s) = Alt (deriv c r) (deriv c s)"
| "deriv c (Seq r s) =
     (if nullable r then Alt (Seq (deriv c r) s) (deriv c s) else Seq (deriv c r) s)"
| "deriv c (Star r) = Seq (deriv c r) (Star r)"

fun matches :: "rexp \<Rightarrow> string \<Rightarrow> bool" where
  "matches r [] = nullable r"
| "matches r (c # cs) = matches (deriv c r) cs"

definition re_plus :: "rexp \<Rightarrow> rexp" where
  "re_plus r = Seq r (Star r)"

definition re_opt :: "rexp \<Rightarrow> rexp" where
  "re_opt r = Alt r Eps"

definition newline :: char where
  "newline = CHR 0x0A"

text \<open>A pattern that ends in \<^verbatim>\<open>$\<close> matches at the end of the string and also just before
  a newline that is the last character.\<close>

definition re_match_dollar :: "rexp \<Rightarrow> string \<Rightarrow> bool" where
  "re_match_dollar r s =
     (matches r s \<or> (s \<noteq> [] \<and> last s = newline \<and> matches r (butlast s)))"

subsection \<open>\<^verbatim>\<open>Yedit.valid_key\<close> and \<^verbatim>\<open>Yedit.parse_key\<close>\<close>

definition digits :: "char list" where
  "digits = ''0123456789''"

definition alnum :: "char list" where
  "alnum = ''0123456789abcdefghijklmnopqrstuvwxyzABCDEFGHIJKLMNOPQRSTUVWXYZ''"

text \<open>\<^verbatim>\<open>com_sep = set(['.', '#', '|', ':'])\<close> and \<^verbatim>\<open>list(Yedit.com_sep - set([sep]))\<close>; the
  separator is a string, so only a one-character separator can remove a member.\<close>

definition com_sep :: "char list" where
  "com_sep = ''.#|:''"

definition common_separators :: "string \<Rightarrow> char list" where
  "common_separators sep = filter (\<lambda>c. [c] \<noteq> sep) com_sep"

text \<open>
  \<^verbatim>\<open>re_valid_key = r"(((\[-?\d+\])|([0-9a-zA-Z%s/_-]+)).?)+$"\<close>. The pattern is passed
  through \<^verbatim>\<open>str.format\<close>, which replaces \<^verbatim>\<open>{}\<close> fields only: it has none, so the
  characters \<^verbatim>\<open>%\<close> and \<^verbatim>\<open>s\<close> stay in the character class and the separators never
  enter it.
\<close>

definition re_index :: rexp where
  "re_index =
     Seq (Chars ''['') (Seq (re_opt (Chars ''-'')) (Seq (re_plus (Chars digits)) (Chars '']'')))"

definition re_valid_key :: "char list \<Rightarrow> rexp" where
  "re_valid_key seps =
     re_plus (Seq (Alt re_index (re_plus (Chars (alnum @ ''%s/_-''))))
                  (re_opt (AnyBut [newline])))"

definition valid_key :: "string \<Rightarrow> string \<Rightarrow> bool" where
  "valid_key key sep = re_match_dollar (re_valid_key (common_separators sep)) key"

text \<open>
  \<^verbatim>\<open>re_key = r"(?:\[(-?\d+)\])|([0-9a-zA-Z{}/_-]+)"\<close>, with the other separators
  substituted into the class, is used with \<^verbatim>\<open>re.findall\<close>: scanning from the left, at
  each position the bracketed integer is tried first, then the longest run of key
  characters; a character that starts neither is skipped. Each match yields the pair
  of its two groups, the group that did not take part being the empty string.
\<close>

type_synonym token = "string \<times> string"

definition key_chars :: "string \<Rightarrow> char list" where
  "key_chars sep = alnum @ common_separators sep @ ''/_-''"

definition match_index :: "string \<Rightarrow> (string \<times> string) option" where
  "match_index s =
     (case s of
        [] \<Rightarrow> None
      | c # r \<Rightarrow>
          if c \<noteq> CHR ''['' then None
          else
            (let sign = (if r \<noteq> [] \<and> hd r = CHR ''-'' then ''-'' else []);
                 r1 = (if r \<noteq> [] \<and> hd r = CHR ''-'' then tl r else r);
                 ds = takeWhile (\<lambda>d. d \<in> set digits) r1;
                 r2 = dropWhile (\<lambda>d. d \<in> set digits) r1
             in if ds \<noteq> [] \<and> r2 \<noteq> [] \<and> hd r2 = CHR '']'' then Some (sign @ ds, tl r2)
                else None))"

lemma match_index_shorter:
  assumes "match_index s = Some (num, rest)"
  shows "length rest < length s"
proof (cases s)
  case Nil
  with assms show ?thesis by (simp add: match_index_def)
next
  case (Cons c r)
  define r1 where "r1 = (if r \<noteq> [] \<and> hd r = CHR ''-'' then tl r else r)"
  define r2 where "r2 = dropWhile (\<lambda>d. d \<in> set digits) r1"
  have "length r1 \<le> length r" by (simp add: r1_def)
  moreover have "length r2 \<le> length r1" by (simp add: r2_def length_dropWhile_le)
  moreover from assms Cons have "rest = tl r2"
    by (auto simp: match_index_def Let_def r1_def r2_def split: if_splits)
  ultimately show ?thesis using Cons by simp
qed

function scan_keys :: "char list \<Rightarrow> string \<Rightarrow> token list" where
  "scan_keys kc [] = []"
| "scan_keys kc (c # cs) =
     (case match_index (c # cs) of
        Some (num, rest) \<Rightarrow> (num, []) # scan_keys kc rest
      | None \<Rightarrow>
          if c \<in> set kc
          then ([], c # takeWhile (\<lambda>d. d \<in> set kc) cs) # scan_keys kc (dropWhile (\<lambda>d. d \<in> set kc) cs)
          else scan_keys kc cs)"
  by pat_completeness auto
termination
proof (relation "measure (\<lambda>(kc, s). length s)")
  show "wf (measure (\<lambda>(kc, s). length s))" by simp
next
  fix kc :: "char list" and c cs x2 num rest
  assume "match_index (c # cs) = Some x2" and "(num, rest) = x2"
  then have "length rest < length (c # cs)" using match_index_shorter by metis
  then show "((kc, rest), (kc, c # cs)) \<in> measure (\<lambda>(kc, s). length s)" by simp
next
  fix kc :: "char list" and c cs
  show "((kc, dropWhile (\<lambda>d. d \<in> set kc) cs), (kc, c # cs)) \<in> measure (\<lambda>(kc, s). length s)"
    by (simp add: length_dropWhile_le le_imp_less_Suc)
next
  fix kc :: "char list" and c :: char and cs :: string
  show "((kc, cs), (kc, c # cs)) \<in> measure (\<lambda>(kc, s). length s)" by simp
qed

definition parse_key :: "string \<Rightarrow> string \<Rightarrow> token list" where
  "parse_key key sep = scan_keys (key_chars sep) key"

section \<open>Tree navigation and mutation\<close>

subsection \<open>\<^verbatim>\<open>Yedit.get_entry\<close>\<close>

text \<open>The loop over \<^verbatim>\<open>key_indexes\<close>: a dictionary step uses \<^verbatim>\<open>data.get\<close>, a list step
  checks the upper bound only and then indexes, anything else returns \<^verbatim>\<open>None\<close>.\<close>

fun get_loop :: "pyval \<Rightarrow> token list \<Rightarrow> error + pyval" where
  "get_loop data [] = Inr data"
| "get_loop data ((arr_ind, dict_key) # rest) =
     (case data of
        PDict kvs \<Rightarrow>
          if dict_key \<noteq> [] then get_loop (dict_get kvs dict_key) rest else Inr PNone
      | PList xs \<Rightarrow>
          if arr_ind \<noteq> [] \<and> py_int arr_ind \<le> int (length xs) - 1
          then (case list_get xs (py_int arr_ind) of
                  Inl e \<Rightarrow> Inl e
                | Inr v \<Rightarrow> get_loop v rest)
          else Inr PNone
      | _ \<Rightarrow> Inr PNone)"

definition get_entry :: "pyval \<Rightarrow> string \<Rightarrow> string \<Rightarrow> error + pyval" where
  "get_entry data key sep =
     (if key = [] then get_loop data (parse_key key sep)
      else if \<not> (key \<noteq> [] \<and> valid_key key sep) \<and> is_container data then Inr PNone
      else get_loop data (parse_key key sep))"

subsection \<open>\<^verbatim>\<open>Yedit.add_entry\<close>\<close>

text \<open>
  The Python code walks \<^verbatim>\<open>key_indexes[:-1]\<close>, rebinding \<^verbatim>\<open>data\<close> to the child it enters
  and creating \<^verbatim>\<open>{}\<close> where a key is missing or holds a false value, then assigns at the
  last step. The model returns the pair of the value the function returns (the innermost
  container, after the assignment) and the argument as the in-place assignments leave it.
\<close>

fun add_loop :: "pyval \<Rightarrow> token list \<Rightarrow> pyval \<Rightarrow> error + (pyval \<times> pyval)" where
  "add_loop data [] item = Inl IndexError"
| "add_loop data [(arr_ind, dict_key)] item =
     (case data of
        PList xs \<Rightarrow>
          if arr_ind \<noteq> [] \<and> py_int arr_ind \<le> int (length xs) then
            (if py_int arr_ind > int (length xs) - 1 then Inr (PList (xs @ [item]), PList (xs @ [item]))
             else (case list_set xs (py_int arr_ind) item of
                     Inl e \<Rightarrow> Inl e
                   | Inr xs' \<Rightarrow> Inr (PList xs', PList xs')))
          else Inl YeditException
      | PDict kvs \<Rightarrow>
          if dict_key \<noteq> [] then Inr (PDict (dict_set kvs dict_key item), PDict (dict_set kvs dict_key item))
          else Inl YeditException
      | _ \<Rightarrow> Inl YeditException)"
| "add_loop data ((arr_ind, dict_key) # t # ts) item =
     (if dict_key \<noteq> [] then
        (case data of
           PDict kvs \<Rightarrow>
             (case add_loop (if dict_key \<in> fst ` set kvs \<and> truthy (dict_get kvs dict_key)
                             then dict_get kvs dict_key else PDict []) (t # ts) item of
                Inl e \<Rightarrow> Inl e
              | Inr (res, child) \<Rightarrow> Inr (res, PDict (dict_set kvs dict_key child)))
         | _ \<Rightarrow> if truthy data then Inl YeditException else Inl TypeError)
      else
        (case data of
           PList xs \<Rightarrow>
             if arr_ind \<noteq> [] \<and> py_int arr_ind \<le> int (length xs) - 1 then
               (case list_get xs (py_int arr_ind) of
                  Inl e \<Rightarrow> Inl e
                | Inr v \<Rightarrow>
                    (case add_loop v (t # ts) item of
                       Inl e \<Rightarrow> Inl e
                     | Inr (res, child) \<Rightarrow>
                         (case list_set xs (py_int arr_ind) child of
                            Inl e \<Rightarrow> Inl e
                          | Inr xs' \<Rightarrow> Inr (res, PList xs'))))
             else Inl YeditException
         | _ \<Rightarrow> Inl YeditException))"

definition add_entry :: "pyval \<Rightarrow> string \<Rightarrow> pyval \<Rightarrow> string \<Rightarrow> error + (pyval \<times> pyval)" where
  "add_entry data key item sep =
     (if key = [] then Inr (item, data)
      else if \<not> (key \<noteq> [] \<and> valid_key key sep) \<and> is_container data then Inr (PNone, data)
      else add_loop data (parse_key key sep) item)"

subsection \<open>\<^verbatim>\<open>Yedit.remove_entry\<close>\<close>

text \<open>\<^verbatim>\<open>key in d\<close> hashes the key first: a list or a dictionary is unhashable.
  \<^verbatim>\<open>d.pop(key)\<close> does the same, except that on an empty dictionary it raises \<^verbatim>\<open>KeyError\<close>
  before it hashes. Only a string can be equal to a key of the model.\<close>

fun dict_contains :: "(string \<times> pyval) list \<Rightarrow> pyval \<Rightarrow> error + bool" where
  "dict_contains kvs (PStr k) = Inr (k \<in> fst ` set kvs)"
| "dict_contains kvs (PList xs) = Inl TypeError"
| "dict_contains kvs (PDict e) = Inl TypeError"
| "dict_contains kvs v = Inr False"

fun dict_pop :: "(string \<times> pyval) list \<Rightarrow> pyval \<Rightarrow> error + (string \<times> pyval) list" where
  "dict_pop [] v = Inl KeyError"
| "dict_pop kvs (PStr k) = (if k \<in> fst ` set kvs then Inr (dict_del kvs k) else Inl KeyError)"
| "dict_pop kvs (PList xs) = Inl TypeError"
| "dict_pop kvs (PDict e) = Inl TypeError"
| "dict_pop kvs v = Inl KeyError"

definition list_pop_at :: "'a list \<Rightarrow> nat \<Rightarrow> 'a list" where
  "list_pop_at xs j = take j xs @ drop (Suc j) xs"

text \<open>The result is Python's \<^verbatim>\<open>True\<close>, \<^verbatim>\<open>False\<close> or \<^verbatim>\<open>None\<close> (\<open>None\<close> here, also when the
  function falls off its end), paired with the argument as the deletions leave it.\<close>

fun remove_loop :: "pyval \<Rightarrow> token list \<Rightarrow> error + (bool option \<times> pyval)" where
  "remove_loop data [] = Inl IndexError"
| "remove_loop data [(arr_ind, dict_key)] =
     (if arr_ind \<noteq> [] then
        (case data of
           PList xs \<Rightarrow>
             if py_int arr_ind \<le> int (length xs) - 1 then
               (case list_del xs (py_int arr_ind) of
                  Inl e \<Rightarrow> Inl e
                | Inr xs' \<Rightarrow> Inr (Some True, PList xs'))
             else Inr (None, data)
         | _ \<Rightarrow> Inr (None, data))
      else if dict_key \<noteq> [] then
        (case data of
           PDict kvs \<Rightarrow>
             if dict_key \<in> fst ` set kvs then Inr (Some True, PDict (dict_del kvs dict_key))
             else Inl KeyError
         | _ \<Rightarrow> Inr (None, data))
      else Inr (None, data))"
| "remove_loop data ((arr_ind, dict_key) # t # ts) =
     (case data of
        PDict kvs \<Rightarrow>
          if dict_key \<noteq> [] then
            (case remove_loop (dict_get kvs dict_key) (t # ts) of
               Inl e \<Rightarrow> Inl e
             | Inr (res, child) \<Rightarrow>
                 Inr (res, if dict_key \<in> fst ` set kvs then PDict (dict_set kvs dict_key child) else data))
          else Inr (None, data)
      | PList xs \<Rightarrow>
          if arr_ind \<noteq> [] \<and> py_int arr_ind \<le> int (length xs) - 1 then
            (case list_get xs (py_int arr_ind) of
               Inl e \<Rightarrow> Inl e
             | Inr v \<Rightarrow>
                 (case remove_loop v (t # ts) of
                    Inl e \<Rightarrow> Inl e
                  | Inr (res, child) \<Rightarrow>
                      (case list_set xs (py_int arr_ind) child of
                         Inl e \<Rightarrow> Inl e
                       | Inr xs' \<Rightarrow> Inr (res, PList xs'))))
          else Inr (None, data)
      | _ \<Rightarrow> Inr (None, data))"

definition remove_entry ::
  "pyval \<Rightarrow> string \<Rightarrow> int option \<Rightarrow> pyval \<Rightarrow> string \<Rightarrow> error + (bool option \<times> pyval)" where
  "remove_entry data key index val sep =
     (case (key = [], data) of
        (True, PDict kvs) \<Rightarrow>
          if val \<noteq> PNone then
            (case dict_pop kvs val of Inl e \<Rightarrow> Inl e | Inr kvs' \<Rightarrow> Inr (Some True, PDict kvs'))
          else if index \<noteq> None then Inl YeditException
          else Inr (Some True, PDict [])
      | (True, PList xs) \<Rightarrow>
          if val \<noteq> PNone then
            (case list_index xs val of
               None \<Rightarrow> Inr (Some False, data)
             | Some ind \<Rightarrow> Inr (Some True, PList (list_pop_at xs ind)))
          else
            (case index of
               Some ind \<Rightarrow>
                 (case list_del xs ind of Inl e \<Rightarrow> Inl e | Inr xs' \<Rightarrow> Inr (Some True, PList xs'))
             | None \<Rightarrow> Inr (Some True, PList []))
      | _ \<Rightarrow>
          if \<not> (key \<noteq> [] \<and> valid_key key sep) \<and> is_container data then Inr (None, data)
          else remove_loop data (parse_key key sep))"

section \<open>The document engine\<close>

text \<open>
  The engine holds the document in \<^verbatim>\<open>self.yaml_dict\<close>. \<^verbatim>\<open>pop\<close>, \<^verbatim>\<open>update\<close>,
  \<^verbatim>\<open>append\<close> and \<^verbatim>\<open>insert\<close> change the object that \<^verbatim>\<open>get_entry\<close> returned, which is a
  part of the document: \<open>store_entry\<close> puts the changed object back at the place
  \<open>get_loop\<close> found it.
\<close>

fun store_entry :: "pyval \<Rightarrow> token list \<Rightarrow> pyval \<Rightarrow> pyval" where
  "store_entry data [] new = new"
| "store_entry data ((arr_ind, dict_key) # rest) new =
     (case data of
        PDict kvs \<Rightarrow>
          if dict_key \<noteq> [] \<and> dict_key \<in> fst ` set kvs
          then PDict (dict_set kvs dict_key (store_entry (dict_get kvs dict_key) rest new))
          else data
      | PList xs \<Rightarrow>
          if arr_ind \<noteq> [] \<and> py_int arr_ind \<le> int (length xs) - 1
          then (case norm_index xs (py_int arr_ind) of
                  None \<Rightarrow> data
                | Some j \<Rightarrow> PList (xs[j := store_entry (xs ! j) rest new]))
          else data
      | _ \<Rightarrow> data)"

text \<open>
  Every operation takes the document and the separator of the engine and returns what
  the call does (an exception raised, or the \<^verbatim>\<open>changed\<close> flag returned) together with
  the document the engine holds afterwards, which is also the second component of the
  returned pair.
\<close>

text \<open>\<^verbatim>\<open>try: entry = Yedit.get_entry(...) except KeyError: entry = None\<close>\<close>

definition entry_of :: "pyval \<Rightarrow> string \<Rightarrow> string \<Rightarrow> error + pyval" where
  "entry_of yaml_dict key sep =
     (case get_entry yaml_dict key sep of
        Inl e \<Rightarrow> if e = KeyError then Inr PNone else Inl e
      | Inr entry \<Rightarrow> Inr entry)"

definition get :: "pyval \<Rightarrow> string \<Rightarrow> string \<Rightarrow> error + pyval" where
  "get yaml_dict key sep = entry_of yaml_dict key sep"

definition pop :: "pyval \<Rightarrow> string \<Rightarrow> pyval \<Rightarrow> string \<Rightarrow> (error + bool) \<times> pyval" where
  "pop yaml_dict path key_or_item sep =
     (case entry_of yaml_dict path sep of
        Inl e \<Rightarrow> (Inl e, yaml_dict)
      | Inr entry \<Rightarrow>
          (case entry of
             PNone \<Rightarrow> (Inr False, yaml_dict)
           | PDict kvs \<Rightarrow>
               (case dict_contains kvs key_or_item of
                  Inl e \<Rightarrow> (Inl e, yaml_dict)
                | Inr found \<Rightarrow>
                    if found then
                      (case dict_pop kvs key_or_item of
                         Inl e \<Rightarrow> (Inl e, yaml_dict)
                       | Inr kvs' \<Rightarrow> (Inr True, store_entry yaml_dict (parse_key path sep) (PDict kvs')))
                    else (Inr False, yaml_dict))
           | PList xs \<Rightarrow>
               (case list_index xs key_or_item of
                  None \<Rightarrow> (Inr False, yaml_dict)
                | Some ind \<Rightarrow>
                    (Inr True, store_entry yaml_dict (parse_key path sep) (PList (list_pop_at xs ind))))
           | _ \<Rightarrow> (Inr False, yaml_dict)))"

definition delete ::
  "pyval \<Rightarrow> string \<Rightarrow> int option \<Rightarrow> pyval \<Rightarrow> string \<Rightarrow> (error + bool) \<times> pyval" where
  "delete yaml_dict path index val sep =
     (case entry_of yaml_dict path sep of
        Inl e \<Rightarrow> (Inl e, yaml_dict)
      | Inr entry \<Rightarrow>
          if entry = PNone then (Inr False, yaml_dict)
          else
            (case remove_entry yaml_dict path index val sep of
               Inl e \<Rightarrow> (Inl e, yaml_dict)
             | Inr (result, data) \<Rightarrow>
                 if result = Some True then (Inr True, data) else (Inr False, data)))"

text \<open>The list branch of \<^verbatim>\<open>update\<close>, once \<^verbatim>\<open>ind\<close> is known: replace the element at
  \<^verbatim>\<open>ind\<close> when it differs from the value, else look the value up and append it when it
  is not there. \<open>None\<close> says that the list was left alone (\<^verbatim>\<open>changed\<close> is false).\<close>

definition find_or_append :: "pyval list \<Rightarrow> pyval \<Rightarrow> pyval list option" where
  "find_or_append entry val =
     (case list_index entry val of
        None \<Rightarrow> Some (entry @ [val])
      | Some j \<Rightarrow> None)"

definition update_list :: "pyval list \<Rightarrow> pyval \<Rightarrow> int option \<Rightarrow> error + pyval list option" where
  "update_list entry val ind =
     (case ind of
        None \<Rightarrow> Inr (find_or_append entry val)
      | Some i \<Rightarrow>
          (case list_get entry i of
             Inl e \<Rightarrow> Inl e
           | Inr x \<Rightarrow>
               if \<not> py_eq x val then
                 (case list_set entry i val of Inl e \<Rightarrow> Inl e | Inr entry' \<Rightarrow> Inr (Some entry'))
               else Inr (find_or_append entry val)))"

definition update ::
  "pyval \<Rightarrow> string \<Rightarrow> pyval \<Rightarrow> int option \<Rightarrow> pyval \<Rightarrow> string \<Rightarrow> (error + bool) \<times> pyval" where
  "update yaml_dict path val index curr_value sep =
     (case entry_of yaml_dict path sep of
        Inl e \<Rightarrow> (Inl e, yaml_dict)
      | Inr entry \<Rightarrow>
          (case entry of
             PDict kvs \<Rightarrow>
               (case val of
                  PDict e \<Rightarrow>
                    (Inr True, store_entry yaml_dict (parse_key path sep) (PDict (dict_update kvs e)))
                | _ \<Rightarrow> (Inl YeditException, yaml_dict))
           | PList xs \<Rightarrow>
               if truthy curr_value \<and> list_index xs curr_value = None then (Inr False, yaml_dict)
               else
                 (case update_list xs val
                         (if truthy curr_value then map_option int (list_index xs curr_value)
                          else index) of
                    Inl e \<Rightarrow> (Inl e, yaml_dict)
                  | Inr None \<Rightarrow> (Inr False, yaml_dict)
                  | Inr (Some xs') \<Rightarrow>
                      (Inr True, store_entry yaml_dict (parse_key path sep) (PList xs')))
           | _ \<Rightarrow> (Inr False, yaml_dict)))"

definition put :: "pyval \<Rightarrow> string \<Rightarrow> pyval \<Rightarrow> string \<Rightarrow> (error + bool) \<times> pyval" where
  "put yaml_dict path val sep =
     (case entry_of yaml_dict path sep of
        Inl e \<Rightarrow> (Inl e, yaml_dict)
      | Inr entry \<Rightarrow>
          if py_eq entry val then (Inr False, yaml_dict)
          else
            (case add_entry yaml_dict path val sep of
               Inl e \<Rightarrow> (Inl e, yaml_dict)
             | Inr (result, tmp_copy) \<Rightarrow>
                 if result = PNone then (Inr False, yaml_dict)
                 else if path = [] then
                   (if is_list result \<or> is_dict result then (Inr True, result)
                    else (Inr False, yaml_dict))
                 else (Inr True, tmp_copy)))"

text \<open>\<^verbatim>\<open>append\<close> and \<^verbatim>\<open>insert\<close> first put an empty list where the path resolves to
  \<^verbatim>\<open>None\<close>, ignoring what \<^verbatim>\<open>put\<close> returns, and look the entry up again.\<close>

definition list_entry ::
  "pyval \<Rightarrow> string \<Rightarrow> string \<Rightarrow> (error + pyval) \<times> pyval" where
  "list_entry yaml_dict path sep =
     (case entry_of yaml_dict path sep of
        Inl e \<Rightarrow> (Inl e, yaml_dict)
      | Inr entry \<Rightarrow>
          if entry = PNone then
            (case put yaml_dict path (PList []) sep of
               (Inl e, yaml_dict') \<Rightarrow> (Inl e, yaml_dict')
             | (Inr changed, yaml_dict') \<Rightarrow> (get_entry yaml_dict' path sep, yaml_dict'))
          else (Inr entry, yaml_dict))"

definition append :: "pyval \<Rightarrow> string \<Rightarrow> pyval \<Rightarrow> string \<Rightarrow> (error + bool) \<times> pyval" where
  "append yaml_dict path val sep =
     (case list_entry yaml_dict path sep of
        (Inl e, yaml_dict') \<Rightarrow> (Inl e, yaml_dict')
      | (Inr entry, yaml_dict') \<Rightarrow>
          (case entry of
             PList xs \<Rightarrow> (Inr True, store_entry yaml_dict' (parse_key path sep) (PList (xs @ [val])))
           | _ \<Rightarrow> (Inr False, yaml_dict')))"

definition insert_at ::
  "pyval \<Rightarrow> string \<Rightarrow> pyval \<Rightarrow> int \<Rightarrow> string \<Rightarrow> (error + bool) \<times> pyval" where
  "insert_at yaml_dict path val index sep =
     (case list_entry yaml_dict path sep of
        (Inl e, yaml_dict') \<Rightarrow> (Inl e, yaml_dict')
      | (Inr entry, yaml_dict') \<Rightarrow>
          (case entry of
             PList xs \<Rightarrow>
               (Inr True, store_entry yaml_dict' (parse_key path sep) (PList (list_insert xs index val)))
           | _ \<Rightarrow> (Inr False, yaml_dict')))"

section \<open>The durable writer\<close>

text \<open>
  The file system is a map from path names to file contents; two different names are two
  different files (no links). Each system call of \<^verbatim>\<open>Yedit._write\<close> that changes a file
  gives one more state, and a process that is interrupted leaves the file system in one
  of these states. What \<^verbatim>\<open>write_func\<close> does is a parameter: the pieces of text that one
  after the other reach the temporary file, and whether the serialiser raises after them.
\<close>

type_synonym fs = "string \<Rightarrow> string option"

record write_func =
  chunks :: "string list"
  raises :: bool

definition file_text :: "fs \<Rightarrow> string \<Rightarrow> string" where
  "file_text f p = (case f p of None \<Rightarrow> [] | Some t \<Rightarrow> t)"

fun write_chunks :: "fs \<Rightarrow> string \<Rightarrow> string list \<Rightarrow> fs list" where
  "write_chunks f p [] = []"
| "write_chunks f p (c # cs) =
     f(p \<mapsto> file_text f p @ c) # write_chunks (f(p \<mapsto> file_text f p @ c)) p cs"

text \<open>\<^verbatim>\<open>os.rename(src, dst)\<close> replaces \<^verbatim>\<open>dst\<close> in one step.\<close>

definition rename :: "fs \<Rightarrow> string \<Rightarrow> string \<Rightarrow> fs" where
  "rename f src dst = (if src = dst then f else (f(dst := f src))(src := None))"

definition tmp_filename :: "string \<Rightarrow> string" where
  "tmp_filename filename = filename @ ''.yedit''"

text \<open>
  The states up to the moment before \<^verbatim>\<open>os.rename\<close>: \<^verbatim>\<open>os.stat(filename)\<close> raises when the
  target does not exist; otherwise the temporary file is created or truncated by
  \<^verbatim>\<open>os.open\<close> with \<^verbatim>\<open>O_CREAT | O_TRUNC\<close> and then receives the text.
\<close>

definition before_rename :: "fs \<Rightarrow> string \<Rightarrow> write_func \<Rightarrow> fs list" where
  "before_rename f filename wfun =
     (case f filename of
        None \<Rightarrow> [f]
      | Some old \<Rightarrow>
          f # f(tmp_filename filename \<mapsto> [])
            # write_chunks (f(tmp_filename filename \<mapsto> [])) (tmp_filename filename) (chunks wfun))"

text \<open>All states of \<^verbatim>\<open>Yedit._write(filename, write_func)\<close>, the first being the state it
  starts in. The rename happens only when nothing before it raised; the \<^verbatim>\<open>fsync\<close> of the
  directory changes no file.\<close>

definition write_states :: "fs \<Rightarrow> string \<Rightarrow> write_func \<Rightarrow> fs list" where
  "write_states f filename wfun =
     (if f filename = None \<or> raises wfun then before_rename f filename wfun
      else before_rename f filename wfun
           @ [rename (last (before_rename f filename wfun)) (tmp_filename filename) filename])"

text \<open>
  \<^verbatim>\<open>shutil.copy(filename, filename + backup_ext)\<close> raises \<^verbatim>\<open>SameFileError\<close> when both names
  are the same; otherwise it opens the copy for writing and fills it.
\<close>

definition backup_states :: "fs \<Rightarrow> string \<Rightarrow> string \<Rightarrow> fs list" where
  "backup_states f filename backup_ext =
     (if filename @ backup_ext = filename then []
      else [f(filename @ backup_ext \<mapsto> []), f(filename @ backup_ext \<mapsto> file_text f filename)])"

text \<open>
  \<^verbatim>\<open>Yedit.write\<close>: no file name raises; the backup is taken when asked for and the file
  exists; then the document is dumped as YAML or JSON through \<^verbatim>\<open>_write\<close>, any other
  content type raises. The two serialisers are the parameter \<open>dump\<close>.
\<close>

definition yedit_write ::
  "fs \<Rightarrow> string \<Rightarrow> bool \<Rightarrow> string \<Rightarrow> string \<Rightarrow> (string \<Rightarrow> pyval \<Rightarrow> write_func) \<Rightarrow> pyval \<Rightarrow> fs list" where
  "yedit_write f filename backup backup_ext content_type dump yaml_dict =
     (if filename = [] then [f]
      else if backup \<and> f filename \<noteq> None \<and> backup_states f filename backup_ext = [] then [f]
      else
        (let bs = f # (if backup \<and> f filename \<noteq> None then backup_states f filename backup_ext else [])
         in if content_type = ''yaml'' \<or> content_type = ''json''
            then bs @ tl (write_states (last bs) filename (dump content_type yaml_dict))
            else bs))"

section \<open>Well-formed values and paths\<close>



text \<open>A path none of whose list steps is negative.\<close>

definition nonneg_steps :: "token list \<Rightarrow> bool" where
  "nonneg_steps toks = list_all (\<lambda>(arr_ind, dict_key). 0 \<le> py_int arr_ind) toks"

text \<open>Scalars: everything that is neither a list nor a dictionary.\<close>

definition is_scalar :: "pyval \<Rightarrow> bool" where
  "is_scalar v = (\<not> is_container v)"

section \<open>Basic facts about the primitives\<close>

lemma norm_index_less: "norm_index xs i = Some j \<Longrightarrow> j < length xs"
  by (auto simp: norm_index_def Let_def split: if_splits)

lemma norm_index_update [simp]: "norm_index (xs[j := v]) i = norm_index xs i"
  by (simp add: norm_index_def)

lemma list_get_list_set:
  "list_set xs i v = Inr xs' \<Longrightarrow> list_get xs' i = Inr v \<and> length xs' = length xs"
  by (auto simp: list_set_def list_get_def norm_index_less split: option.splits)

lemma list_get_append_last:
  "i = int (length xs) \<Longrightarrow> list_get (xs @ [v]) i = Inr v"
  by (simp add: list_get_def norm_index_def)

lemma map_of_dict_set: "map_of (dict_set kvs k v) k = Some v"
  by (induction kvs k v rule: dict_set.induct) auto

lemma dict_get_dict_set [simp]: "dict_get (dict_set kvs k v) k = v"
  by (simp add: dict_get_def map_of_dict_set)



lemma parse_key_empty [simp]: "parse_key [] sep = []"
  by (simp add: parse_key_def)


section \<open>Writing and reading back\<close>

lemma add_loop_get_loop:
  "add_loop data toks item = Inr (res, data') \<Longrightarrow> get_loop data' toks = Inr item"
proof (induction data toks item arbitrary: res data' rule: add_loop.induct)
  case (1 data item)
  then show ?case by simp
next
  case (2 data arr_ind dict_key item)
  then show ?case
    by (auto split: pyval.splits if_splits sum.splits
             dest!: list_get_list_set simp: list_get_append_last)
next
  case (3 data arr_ind dict_key t ts item)
  note prem = "3.prems"
  show ?case
  proof (cases "dict_key \<noteq> []")
    case True
    with prem obtain kvs where d: "data = PDict kvs"
      by (auto split: pyval.splits if_splits)
    define start where
      "start = (if dict_key \<in> fst ` set kvs \<and> truthy (dict_get kvs dict_key)
                then dict_get kvs dict_key else PDict [])"
    from prem True d obtain child where
      c: "add_loop start (t # ts) item = Inr (res, child)"
      and d': "data' = PDict (dict_set kvs dict_key child)"
      by (auto simp: start_def split: sum.splits prod.splits)
    from "3.IH"(1) [OF True d c [unfolded start_def]]
    have "get_loop child (t # ts) = Inr item" .
    with True d' show ?thesis by simp
  next
    case False
    with prem obtain xs where d: "data = PList xs"
      and b: "arr_ind \<noteq> []" "py_int arr_ind \<le> int (length xs) - 1"
      by (auto split: pyval.splits if_splits)
    from prem False d b obtain v child xs' where
      g: "list_get xs (py_int arr_ind) = Inr v"
      and c: "add_loop v (t # ts) item = Inr (res, child)"
      and s: "list_set xs (py_int arr_ind) child = Inr xs'"
      and d': "data' = PList xs'"
      by (auto split: sum.splits prod.splits)
    from "3.IH"(2) [OF False d _ g c] b
    have "get_loop child (t # ts) = Inr item" by simp
    with list_get_list_set [OF s] b d' show ?thesis by simp
  qed
qed

lemma add_loop_needs_container:
  "add_loop data toks item = Inr r \<Longrightarrow> is_container data"
  by (cases "(data, toks, item)" rule: add_loop.cases)
     (auto simp: is_container_def split: pyval.splits if_splits)

lemma add_loop_gives_container:
  "add_loop data toks item = Inr (res, data') \<Longrightarrow> is_container data' \<and> is_container res"
proof (induction data toks item arbitrary: res data' rule: add_loop.induct)
  case (1 data item)
  then show ?case by simp
next
  case (2 data arr_ind dict_key item)
  then show ?case
    by (auto simp: is_container_def split: pyval.splits if_splits sum.splits)
next
  case (3 data arr_ind dict_key t ts item)
  note prem = "3.prems"
  show ?case
  proof (cases "dict_key \<noteq> []")
    case True
    with prem obtain kvs where d: "data = PDict kvs"
      by (auto split: pyval.splits if_splits)
    define start where
      "start = (if dict_key \<in> fst ` set kvs \<and> truthy (dict_get kvs dict_key)
                then dict_get kvs dict_key else PDict [])"
    from prem True d obtain child where
      c: "add_loop start (t # ts) item = Inr (res, child)"
      and d': "data' = PDict (dict_set kvs dict_key child)"
      by (auto simp: start_def split: sum.splits prod.splits)
    from "3.IH"(1) [OF True d c [unfolded start_def]] d'
    show ?thesis by (simp add: is_container_def)
  next
    case False
    with prem obtain xs where d: "data = PList xs"
      and b: "arr_ind \<noteq> []" "py_int arr_ind \<le> int (length xs) - 1"
      by (auto split: pyval.splits if_splits)
    from prem False d b obtain v child xs' where
      g: "list_get xs (py_int arr_ind) = Inr v"
      and c: "add_loop v (t # ts) item = Inr (res, child)"
      and d': "data' = PList xs'"
      by (auto split: sum.splits prod.splits)
    from "3.IH"(2) [OF False d _ g c] b d'
    show ?thesis by (simp add: is_container_def)
  qed
qed

lemma add_entry_get_entry:
  assumes "add_entry data key item sep = Inr (res, data')" and "key = [] \<or> res \<noteq> PNone"
  shows "get_entry (if key = [] then res else data') key sep = Inr item"
proof (cases "key = []")
  case True
  with assms show ?thesis by (simp add: add_entry_def get_entry_def)
next
  case False
  with assms have nn: "res \<noteq> PNone" by simp
  with assms False have loop: "add_loop data (parse_key key sep) item = Inr (res, data')"
    by (auto simp: add_entry_def split: if_splits)
  have "valid_key key sep"
  proof (rule ccontr)
    assume nv: "\<not> valid_key key sep"
    from add_loop_needs_container [OF loop] have "is_container data" .
    with nv assms False nn show False by (simp add: add_entry_def)
  qed
  with False add_loop_get_loop [OF loop] show ?thesis by (simp add: get_entry_def)
qed


text \<open>
  Claim C8. Whenever \<^verbatim>\<open>add_entry\<close> returns a result for a path (of any number of mapping
  and list steps, so in particular of up to five), \<^verbatim>\<open>get_entry\<close> on the same path of the
  resulting document returns exactly the item that was written. For the root path the
  resulting document is the value returned; otherwise it is the mutated argument.
\<close>

theorem upsert_then_resolve:
  assumes "add_entry data key item sep = Inr (res, data')" and "key = [] \<or> res \<noteq> PNone"
  shows "get_entry (if key = [] then res else data') key sep = Inr item"
  using assms by (rule add_entry_get_entry)

theorem upsert_then_resolve_witness:
  "add_entry (PDict [(''a'', PList [PDict [(''b'', PList [PInt 1, PDict []])]])])
       ''a[0].b[1].c'' (PStr ''v'') ''.''
     = Inr (PDict [(''c'', PStr ''v'')],
            PDict [(''a'', PList [PDict [(''b'', PList [PInt 1, PDict [(''c'', PStr ''v'')]])]])])
   \<and> get_entry (PDict [(''a'', PList [PDict [(''b'', PList [PInt 1, PDict [(''c'', PStr ''v'')]])]])])
       ''a[0].b[1].c'' ''.'' = Inr (PStr ''v'')"
proof -
  have h: "add_entry (PDict [(''a'', PList [PDict [(''b'', PList [PInt 1, PDict []])]])])
       ''a[0].b[1].c'' (PStr ''v'') ''.''
     = Inr (PDict [(''c'', PStr ''v'')],
            PDict [(''a'', PList [PDict [(''b'', PList [PInt 1, PDict [(''c'', PStr ''v'')]])]])])"
    by code_simp
  from upsert_then_resolve [OF h] h show ?thesis by simp
qed








text \<open>
  Claim C10. The unchanged-value check of \<^verbatim>\<open>put\<close> is Python's \<^verbatim>\<open>==\<close>: whenever the value
  resolved at the path compares equal to the supplied value, \<^verbatim>\<open>put\<close> reports no change
  and keeps the document, stored value included; and this equality identifies \<^verbatim>\<open>True\<close>
  with \<^verbatim>\<open>1\<close> and \<^verbatim>\<open>False\<close> with \<^verbatim>\<open>0\<close>.
\<close>

theorem put_loose_equality:
  assumes "get t path sep = Inr entry" and "py_eq entry val"
  shows "put t path val sep = (Inr False, t)
       \<and> py_eq (PInt 1) (PBool True) \<and> py_eq (PBool True) (PInt 1)
       \<and> py_eq (PInt 0) (PBool False) \<and> py_eq (PBool False) (PInt 0)"
  using assms by (simp add: put_def get_def)

theorem put_loose_equality_witness:
  "get (PDict [(''x'', PInt 1)]) ''x'' ''.'' = Inr (PInt 1)
   \<and> py_eq (PInt 1) (PBool True)
   \<and> put (PDict [(''x'', PInt 1)]) ''x'' (PBool True) ''.'' = (Inr False, PDict [(''x'', PInt 1)])"
proof -
  have g: "get (PDict [(''x'', PInt 1)]) ''x'' ''.'' = Inr (PInt 1)" by code_simp
  have e: "py_eq (PInt 1) (PBool True)" by simp
  from put_loose_equality [OF g e] g e show ?thesis by simp
qed

section \<open>The root stays a container\<close>

lemma store_entry_container:
  "is_container data \<Longrightarrow> is_container new \<Longrightarrow> is_container (store_entry data toks new)"
  by (cases "(data, toks, new)" rule: store_entry.cases)
     (auto simp: is_container_def split: pyval.splits option.splits)

lemma entry_of_root [simp]: "entry_of t [] sep = Inr t"
  by (simp add: entry_of_def get_entry_def)

lemma put_container: "is_container t \<Longrightarrow> is_container (snd (put t path val sep))"
  by (auto simp: put_def add_entry_def is_container_def [of "PNone"]
           split: sum.splits prod.splits if_splits dest: add_loop_gives_container)
     (auto simp: is_container_def)

lemma remove_loop_container:
  "remove_loop data toks = Inr (res, data') \<Longrightarrow> is_container data \<Longrightarrow> is_container data'"
  by (cases "(data, toks)" rule: remove_loop.cases)
     (auto simp: is_container_def split: pyval.splits if_splits sum.splits prod.splits)

lemma remove_entry_container:
  "remove_entry data key index val sep = Inr (res, data') \<Longrightarrow> is_container data
   \<Longrightarrow> is_container data'"
  by (auto simp: remove_entry_def split: pyval.splits if_splits sum.splits option.splits bool.splits
           dest: remove_loop_container)
     (auto simp: is_container_def)

lemma delete_container: "is_container t \<Longrightarrow> is_container (snd (delete t path index val sep))"
  by (auto simp: delete_def split: sum.splits prod.splits dest: remove_entry_container)

lemma pop_container: "is_container t \<Longrightarrow> is_container (snd (pop t path item sep))"
  by (auto simp: pop_def split: sum.splits pyval.splits option.splits
           intro!: store_entry_container)
     (auto simp: is_container_def)

lemma update_container:
  "is_container t \<Longrightarrow> is_container (snd (update t path val index cv sep))"
  by (auto simp: update_def split: sum.splits pyval.splits option.splits
           intro!: store_entry_container)
     (auto simp: is_container_def)

lemma list_entry_container:
  "is_container t \<Longrightarrow> is_container (snd (list_entry t path sep))"
  using put_container [of t path "PList []" sep]
  by (auto simp: list_entry_def split: sum.splits prod.splits)

lemma append_container: "is_container t \<Longrightarrow> is_container (snd (append t path val sep))"
  using list_entry_container [of t path sep]
  by (auto simp: append_def split: sum.splits prod.splits pyval.splits
           intro!: store_entry_container)
     (auto simp: is_container_def)

lemma insert_at_container:
  "is_container t \<Longrightarrow> is_container (snd (insert_at t path val index sep))"
  using list_entry_container [of t path sep]
  by (auto simp: insert_at_def split: sum.splits prod.splits pyval.splits
           intro!: store_entry_container)
     (auto simp: is_container_def)

lemma put_root:
  "put t [] val sep =
     (if py_eq t val then (Inr False, t)
      else if is_container val then (Inr True, val) else (Inr False, t))"
  by (auto simp: put_def add_entry_def is_container_def)

text \<open>
  Claim C9. On a document whose root is a mapping or a sequence, every edit operation
  (\<^verbatim>\<open>put\<close>, \<^verbatim>\<open>update\<close>, \<^verbatim>\<open>append\<close>, \<^verbatim>\<open>insert\<close>, \<^verbatim>\<open>delete\<close>, \<^verbatim>\<open>pop\<close>) that reports a change
  leaves a document whose root is again a mapping or a sequence. A \<^verbatim>\<open>put\<close> at the root
  path commits the new value when it is a mapping or a sequence, and reports no change
  and keeps the document when the value is a scalar.
\<close>

theorem root_container_invariant:
  assumes "is_container t"
  shows "(fst (put t path val sep) = Inr True \<longrightarrow> is_container (snd (put t path val sep)))
       \<and> (fst (update t path val index curr_value sep) = Inr True
            \<longrightarrow> is_container (snd (update t path val index curr_value sep)))
       \<and> (fst (append t path val sep) = Inr True \<longrightarrow> is_container (snd (append t path val sep)))
       \<and> (fst (insert_at t path val pos sep) = Inr True
            \<longrightarrow> is_container (snd (insert_at t path val pos sep)))
       \<and> (fst (delete t path index item sep) = Inr True
            \<longrightarrow> is_container (snd (delete t path index item sep)))
       \<and> (fst (pop t path item sep) = Inr True \<longrightarrow> is_container (snd (pop t path item sep)))
       \<and> (is_container val \<and> \<not> py_eq t val \<longrightarrow> put t [] val sep = (Inr True, val))
       \<and> (\<not> is_container val \<longrightarrow> put t [] val sep = (Inr False, t))"
  using assms
  by (simp add: put_container update_container append_container insert_at_container
                delete_container pop_container put_root)

theorem root_container_invariant_witness:
  "is_container (PDict [(''a'', PInt 1)])
   \<and> put (PDict [(''a'', PInt 1)]) [] (PList [PInt 2]) ''.'' = (Inr True, PList [PInt 2])
   \<and> is_container (snd (put (PDict [(''a'', PInt 1)]) [] (PList [PInt 2]) ''.''))
   \<and> put (PDict [(''a'', PInt 1)]) [] (PInt 5) ''.'' = (Inr False, PDict [(''a'', PInt 1)])
   \<and> fst (pop (PDict [(''a'', PInt 1)]) [] (PStr ''a'') ''.'') = Inr True
   \<and> is_container (snd (pop (PDict [(''a'', PInt 1)]) [] (PStr ''a'') ''.''))"
proof -
  have c: "is_container (PDict [(''a'', PInt 1)])" by (simp add: is_container_def)
  have v: "is_container (PList [PInt 2]) \<and> \<not> py_eq (PDict [(''a'', PInt 1)]) (PList [PInt 2])"
    by (simp add: is_container_def)
  have s: "\<not> is_container (PInt 5)" by (simp add: is_container_def)
  have p: "fst (pop (PDict [(''a'', PInt 1)]) [] (PStr ''a'') ''.'') = Inr True" by code_simp
  from root_container_invariant [OF c, where path = "[]" and val = "PList [PInt 2]" and sep = "''.''"
           and item = "PStr ''a''"]
       root_container_invariant [OF c, where path = "[]" and val = "PInt 5" and sep = "''.''"] c v s p
  show ?thesis by simp
qed

section \<open>Paths that fail the grammar, and lookups that find nothing\<close>

lemma get_loop_nonneg:
  "nonneg_steps toks \<Longrightarrow> \<exists>v. get_loop data toks = Inr v"
proof (induction toks arbitrary: data)
  case Nil
  then show ?case by simp
next
  case (Cons tok toks)
  obtain a d where tok: "tok = (a, d)" by (cases tok)
  from Cons.prems tok have nn: "0 \<le> py_int a" and rest: "nonneg_steps toks"
    by (simp_all add: nonneg_steps_def)
  show ?case
  proof (cases data)
    case (PList xs)
    show ?thesis
    proof (cases "a \<noteq> [] \<and> py_int a \<le> int (length xs) - 1")
      case True
      with nn have "list_get xs (py_int a) = Inr (xs ! nat (py_int a))"
        by (simp add: list_get_def norm_index_def)
      with True PList tok Cons.IH [OF rest] show ?thesis by simp
    next
      case False
      with PList tok show ?thesis by auto
    qed
  next
    case (PDict kvs)
    with tok Cons.IH [OF rest] show ?thesis by simp
  qed (simp_all add: tok)
qed

lemma get_entry_nonneg:
  "nonneg_steps (parse_key key sep) \<Longrightarrow> \<exists>v. get t key sep = Inr v"
  using get_loop_nonneg [of "parse_key key sep" t]
  by (auto simp: get_def entry_of_def get_entry_def)

text \<open>The bound check of a list step is one-sided: an index below \<^verbatim>\<open>-len\<close> passes it and
  the indexing raises \<^verbatim>\<open>IndexError\<close>, which no caller catches.\<close>

lemma negative_index_raises:
  "get (PDict [(''a'', PList [PInt 1])]) ''a[-3]'' ''.'' = Inl IndexError"
  by code_simp

lemma invalid_get_entry:
  "path \<noteq> [] \<Longrightarrow> \<not> valid_key path sep \<Longrightarrow> is_container t \<Longrightarrow> get_entry t path sep = Inr PNone"
  by (simp add: get_entry_def)

lemma invalid_put:
  "path \<noteq> [] \<Longrightarrow> \<not> valid_key path sep \<Longrightarrow> is_container t \<Longrightarrow> put t path val sep = (Inr False, t)"
  by (simp add: put_def entry_of_def invalid_get_entry add_entry_def)

text \<open>
  Claim C3, as the code has it. The code never raises for a path that fails
  \<^verbatim>\<open>valid_key\<close>: on a document whose root is a mapping or a sequence, \<^verbatim>\<open>get\<close> returns
  \<^verbatim>\<open>None\<close> and every edit operation reports no change and leaves the document as it is.
  And a lookup along a path whose list steps are not negative never raises, whatever is
  missing on the way.
\<close>

theorem invalid_path_is_noop:
  assumes "path \<noteq> []" and "\<not> valid_key path sep" and "is_container t"
  shows "get t path sep = Inr PNone
       \<and> put t path val sep = (Inr False, t)
       \<and> update t path val index curr_value sep = (Inr False, t)
       \<and> append t path val sep = (Inr False, t)
       \<and> insert_at t path val pos sep = (Inr False, t)
       \<and> delete t path index item sep = (Inr False, t)
       \<and> pop t path item sep = (Inr False, t)
       \<and> (nonneg_steps (parse_key key sep') \<longrightarrow> (\<exists>v. get t' key sep' = Inr v))"
  using assms get_entry_nonneg [of key sep' t']
  by (simp add: get_def update_def append_def insert_at_def delete_def pop_def list_entry_def
                entry_of_def invalid_get_entry invalid_put)

theorem invalid_path_is_noop_witness:
  "''a..b'' \<noteq> [] \<and> \<not> valid_key ''a..b'' ''.'' \<and> is_container (PDict [(''a'', PInt 1)])
   \<and> get (PDict [(''a'', PInt 1)]) ''a..b'' ''.'' = Inr PNone
   \<and> put (PDict [(''a'', PInt 1)]) ''a..b'' (PInt 2) ''.'' = (Inr False, PDict [(''a'', PInt 1)])
   \<and> nonneg_steps (parse_key ''a.b[7]'' ''.'')
   \<and> (\<exists>v. get (PDict [(''a'', PInt 1)]) ''a.b[7]'' ''.'' = Inr v)"
proof -
  have n: "''a..b'' \<noteq> []" by simp
  have v: "\<not> valid_key ''a..b'' ''.''" by code_simp
  have c: "is_container (PDict [(''a'', PInt 1)])" by (simp add: is_container_def)
  have s: "nonneg_steps (parse_key ''a.b[7]'' ''.'')" by code_simp
  from invalid_path_is_noop [OF n v c, where key = "''a.b[7]''" and sep' = "''.''"
         and t' = "PDict [(''a'', PInt 1)]" and val = "PInt 2"] n v c s
  show ?thesis by simp
qed

text \<open>Claim C3 as the specification states it fails: the ill-formed path \<^verbatim>\<open>a..b\<close> makes
  \<^verbatim>\<open>get_entry\<close> return \<^verbatim>\<open>None\<close> and \<^verbatim>\<open>put\<close> return \<^verbatim>\<open>(False, document)\<close>; nothing is
  raised.\<close>

theorem invalid_path_raises_counterexample:
  "\<not> valid_key ''a..b'' ''.''
   \<and> get_entry (PDict [(''a'', PInt 1)]) ''a..b'' ''.'' = Inr PNone
   \<and> put (PDict [(''a'', PInt 1)]) ''a..b'' (PInt 2) ''.'' = (Inr False, PDict [(''a'', PInt 1)])"
  by code_simp

section \<open>Deleting beyond the end of a list\<close>

lemma get_loop_none [simp]: "get_loop PNone rest = Inr PNone"
  by (cases rest) auto

lemma get_loop_append:
  "get_loop t (pre @ rest) = (case get_loop t pre of Inl e \<Rightarrow> Inl e | Inr v \<Rightarrow> get_loop v rest)"
proof (induction pre arbitrary: t)
  case Nil
  then show ?case by simp
next
  case (Cons tok pre)
  obtain a d where tok: "tok = (a, d)" by (cases tok)
  show ?case
    by (cases t) (simp_all add: tok Cons.IH split: sum.splits)
qed

lemma get_loop_past_end:
  assumes "get_loop t pre = Inr (PList xs)" and "int (length xs) \<le> py_int arr_ind"
  shows "get_loop t (pre @ (arr_ind, dict_key) # rest) = Inr PNone"
  using assms by (simp add: get_loop_append)

lemma remove_entry_ignores_index:
  "path \<noteq> [] \<Longrightarrow> remove_entry t path index item sep = remove_entry t path None PNone sep"
  by (simp add: remove_entry_def split: pyval.splits)

lemma delete_ignores_index:
  "path \<noteq> [] \<Longrightarrow> delete t path index item sep = delete t path None PNone sep"
  unfolding delete_def by (subst remove_entry_ignores_index) simp_all

text \<open>
  Claim C5, as the code has it. A list step of the path whose index is at or beyond the
  length of the list it reaches makes \<^verbatim>\<open>delete\<close> report no change and leave the document
  as it is (so \<^verbatim>\<open>delete\<close> with path \<^verbatim>\<open>a[5]\<close> on \<^verbatim>\<open>{a: [1, 2]}\<close> changes nothing). The
  \<^verbatim>\<open>index\<close> and \<^verbatim>\<open>value\<close> arguments play no part for a path other than the root.
\<close>

theorem delete_out_of_bounds_step:
  assumes "parse_key path sep = pre @ (arr_ind, dict_key) # rest"
      and "get_loop t pre = Inr (PList xs)"
      and "int (length xs) \<le> py_int arr_ind"
  shows "delete t path index item sep = (Inr False, t)
       \<and> (path' \<noteq> [] \<longrightarrow> delete t' path' index item sep = delete t' path' None PNone sep)"
proof -
  from get_loop_past_end [OF assms(2,3)] assms(1)
  have "get_loop t (parse_key path sep) = Inr PNone" by simp
  moreover from assms(1) have "path \<noteq> []" by auto
  ultimately have "get_entry t path sep = Inr PNone" by (simp add: get_entry_def)
  then show ?thesis
    using delete_ignores_index [of path' t' index item sep]
    by (simp add: delete_def [of t] entry_of_def)
qed

theorem delete_out_of_bounds_step_witness:
  "parse_key ''a[5]'' ''.'' = [] @ ([], ''a'') # [(''5'', [])]
   \<and> parse_key ''a[5]'' ''.'' = [([], ''a'')] @ (''5'', []) # []
   \<and> get_loop (PDict [(''a'', PList [PInt 1, PInt 2])]) [([], ''a'')] = Inr (PList [PInt 1, PInt 2])
   \<and> int (length [PInt 1, PInt 2]) \<le> py_int ''5''
   \<and> delete (PDict [(''a'', PList [PInt 1, PInt 2])]) ''a[5]'' None PNone ''.''
       = (Inr False, PDict [(''a'', PList [PInt 1, PInt 2])])"
proof -
  have p: "parse_key ''a[5]'' ''.'' = [([], ''a'')] @ (''5'', []) # []" by code_simp
  have g: "get_loop (PDict [(''a'', PList [PInt 1, PInt 2])]) [([], ''a'')] = Inr (PList [PInt 1, PInt 2])"
    by code_simp
  have b: "int (length [PInt 1, PInt 2]) \<le> py_int ''5''" by code_simp
  from delete_out_of_bounds_step [OF p g b, where path' = "[]"] p g b show ?thesis by simp
qed

text \<open>Claim C5 as the specification states it fails: on \<^verbatim>\<open>{a: [1, 2]}\<close>, \<^verbatim>\<open>delete\<close> with path
  \<^verbatim>\<open>a\<close> and index \<^verbatim>\<open>5\<close> removes the key \<^verbatim>\<open>a\<close> and reports a change.\<close>

theorem delete_index_argument_counterexample:
  "delete (PDict [(''a'', PList [PInt 1, PInt 2])]) ''a'' (Some 5) PNone ''.'' = (Inr True, PDict [])"
  by code_simp

section \<open>Updating a list through a current value\<close>

lemma list_index_Some:
  "list_index xs v = Some i \<Longrightarrow>
     i < length xs \<and> py_eq (xs ! i) v \<and> (\<forall>j<i. \<not> py_eq (xs ! j) v)"
proof (induction xs arbitrary: i)
  case Nil
  then show ?case by simp
next
  case (Cons x xs)
  show ?case
  proof (cases "py_eq x v")
    case True
    with Cons.prems show ?thesis by simp
  next
    case False
    with Cons.prems obtain k where k: "list_index xs v = Some k" and i: "i = Suc k"
      by auto
    from Cons.IH [OF k] False i show ?thesis
      by (auto simp: nth_Cons split: nat.splits)
  qed
qed


lemma list_get_nat: "i < length xs \<Longrightarrow> list_get xs (int i) = Inr (xs ! i)"
  by (simp add: list_get_def norm_index_def)

lemma list_set_nat: "i < length xs \<Longrightarrow> list_set xs (int i) v = Inr (xs[i := v])"
  by (simp add: list_set_def norm_index_def)

lemma dict_get_missing: "k \<notin> fst ` set kvs \<Longrightarrow> dict_get kvs k = PNone"
  by (force simp: dict_get_def split: option.splits dest: map_of_SomeD)


lemma get_loop_scalar_root:
  "\<not> is_container t \<Longrightarrow> toks \<noteq> [] \<Longrightarrow> get_loop t toks = Inr PNone"
  by (cases t; cases toks) (auto simp: is_container_def)










section \<open>A scalar in the way of a path\<close>

lemma add_loop_step:
  "ts \<noteq> [] \<Longrightarrow>
   add_loop data ((arr_ind, dict_key) # ts) item =
     (if dict_key \<noteq> [] then
        (case data of
           PDict kvs \<Rightarrow>
             (case add_loop (if dict_key \<in> fst ` set kvs \<and> truthy (dict_get kvs dict_key)
                             then dict_get kvs dict_key else PDict []) ts item of
                Inl e \<Rightarrow> Inl e
              | Inr (res, child) \<Rightarrow> Inr (res, PDict (dict_set kvs dict_key child)))
         | _ \<Rightarrow> if truthy data then Inl YeditException else Inl TypeError)
      else
        (case data of
           PList xs \<Rightarrow>
             if arr_ind \<noteq> [] \<and> py_int arr_ind \<le> int (length xs) - 1 then
               (case list_get xs (py_int arr_ind) of
                  Inl e \<Rightarrow> Inl e
                | Inr v \<Rightarrow>
                    (case add_loop v ts item of
                       Inl e \<Rightarrow> Inl e
                     | Inr (res, child) \<Rightarrow>
                         (case list_set xs (py_int arr_ind) child of
                            Inl e \<Rightarrow> Inl e
                          | Inr xs' \<Rightarrow> Inr (res, PList xs'))))
             else Inl YeditException
         | _ \<Rightarrow> Inl YeditException))"
proof -
  assume "ts \<noteq> []"
  then obtain t ts' where ts: "ts = t # ts'" by (cases ts) auto
  show ?thesis unfolding ts by simp
qed

lemma add_loop_scalar:
  "is_scalar s \<Longrightarrow> truthy s \<Longrightarrow> rest \<noteq> [] \<Longrightarrow> add_loop s rest item = Inl YeditException"
  by (cases "(s, rest, item)" rule: add_loop.cases)
     (auto simp: is_scalar_def is_container_def split: pyval.splits)

lemma list_get_nonempty: "list_get xs i = Inr v \<Longrightarrow> xs \<noteq> []"
  by (auto simp: list_get_def norm_index_def Let_def split: if_splits)

lemma get_loop_reaches:
  "get_loop v (tok # toks) = Inr s \<Longrightarrow> s \<noteq> PNone \<Longrightarrow> truthy v \<and> is_container v"
  by (cases tok; cases v)
     (auto simp: is_container_def list_get_def norm_index_def Let_def dict_get_def split: if_splits)

lemma add_loop_conflict:
  assumes "get_loop data (pre @ [(a, k)]) = Inr s" and "is_scalar s" and "truthy s"
      and "rest \<noteq> []"
  shows "add_loop data (pre @ (a, k) # rest) item = Inl YeditException"
  using assms(1)
proof (induction pre arbitrary: data)
  case Nil
  from assms(3) have sn: "s \<noteq> PNone" by auto
  show ?case
  proof (cases data)
    case (PList xs)
    with Nil sn have b: "a \<noteq> []" "py_int a \<le> int (length xs) - 1"
      and g: "list_get xs (py_int a) = Inr s"
      by (auto split: if_splits sum.splits)
    from g have "xs \<noteq> []" by (rule list_get_nonempty)
    with PList b g add_loop_scalar [OF assms(2,3,4)] assms(4) show ?thesis
      by (simp add: add_loop_step)
  next
    case (PDict kvs)
    with Nil sn have k: "k \<noteq> []" and g: "dict_get kvs k = s"
      by (auto split: if_splits)
    have "k \<in> fst ` set kvs"
    proof (rule ccontr)
      assume "k \<notin> fst ` set kvs"
      then have "dict_get kvs k = PNone" by (rule dict_get_missing)
      with g sn show False by simp
    qed
    with PDict k g assms(3) add_loop_scalar [OF assms(2,3,4)] assms(4) show ?thesis
      by (simp add: add_loop_step)
  qed (use Nil sn in auto)
next
  case (Cons tok pre)
  obtain a' k' where tok: "tok = (a', k')" by (cases tok)
  from assms(3) have sn: "s \<noteq> PNone" by auto
  have ne: "pre @ (a, k) # rest \<noteq> []" by simp
  show ?case
  proof (cases data)
    case (PList xs)
    with Cons.prems tok sn have b: "a' \<noteq> []" "py_int a' \<le> int (length xs) - 1"
      by (auto split: if_splits)
    with Cons.prems tok PList obtain v where g: "list_get xs (py_int a') = Inr v"
      and l: "get_loop v (pre @ [(a, k)]) = Inr s"
      by (auto split: sum.splits)
    from g have x: "xs \<noteq> []" by (rule list_get_nonempty)
    from Cons.IH [OF l] PList tok b g x show ?thesis
      by (simp add: add_loop_step [OF ne])
  next
    case (PDict kvs)
    with Cons.prems tok sn have k: "k' \<noteq> []"
      and l: "get_loop (dict_get kvs k') (pre @ [(a, k)]) = Inr s"
      by (auto split: if_splits)
    have "pre @ [(a, k)] \<noteq> []" by simp
    then obtain t ts where "pre @ [(a, k)] = t # ts" by (cases "pre @ [(a, k)]") auto
    with l get_loop_reaches [of "dict_get kvs k'" t ts s] sn
    have tr: "truthy (dict_get kvs k')" by simp
    have "k' \<in> fst ` set kvs"
    proof (rule ccontr)
      assume "k' \<notin> fst ` set kvs"
      then have "dict_get kvs k' = PNone" by (rule dict_get_missing)
      with tr show False by simp
    qed
    with Cons.IH [OF l] PDict tok k tr show ?thesis
      by (simp add: add_loop_step [OF ne])
  qed (use Cons.prems tok sn in auto)
qed

lemma get_loop_beyond_scalar:
  assumes "get_loop data (pre @ [(a, k)]) = Inr s" and "is_scalar s" and "rest \<noteq> []"
  shows "get_loop data (pre @ (a, k) # rest) = Inr PNone"
proof -
  have "pre @ (a, k) # rest = (pre @ [(a, k)]) @ rest" by simp
  with assms get_loop_scalar_root [of s rest] show ?thesis
    by (simp only: get_loop_append is_scalar_def) simp
qed

text \<open>
  Claim C4, as the code has it. Let a valid path have a step that is not its last and
  that resolves to a scalar which is true in Python's sense (a non-zero number, a
  non-empty string, \<^verbatim>\<open>True\<close>). Then \<^verbatim>\<open>put\<close> of a value other than \<^verbatim>\<open>None\<close> raises
  \<^verbatim>\<open>YeditException\<close> and the document the engine holds is left as it was.
\<close>

theorem put_through_scalar_raises:
  assumes "valid_key path sep"
      and "parse_key path sep = pre @ (arr_ind, dict_key) # rest" and "rest \<noteq> []"
      and "get_loop t (pre @ [(arr_ind, dict_key)]) = Inr s"
      and "is_scalar s" and "truthy s" and "val \<noteq> PNone"
  shows "put t path val sep = (Inl YeditException, t)"
proof -
  from assms(2) have ne: "path \<noteq> []" by auto
  from get_loop_beyond_scalar [OF assms(4,5,3)] assms(1,2) ne
  have "get_entry t path sep = Inr PNone" by (simp add: get_entry_def)
  moreover from add_loop_conflict [OF assms(4,5,6,3)] assms(1,2) ne
  have "add_entry t path val sep = Inl YeditException" by (simp add: add_entry_def)
  ultimately show ?thesis using assms(7) by (simp add: put_def entry_of_def)
qed

theorem put_through_scalar_raises_witness:
  "valid_key ''x.y'' ''.''
   \<and> parse_key ''x.y'' ''.'' = [] @ ([], ''x'') # [([], ''y'')]
   \<and> get_loop (PDict [(''x'', PInt 1)]) ([] @ [([], ''x'')]) = Inr (PInt 1)
   \<and> is_scalar (PInt 1) \<and> truthy (PInt 1)
   \<and> put (PDict [(''x'', PInt 1)]) ''x.y'' (PInt 2) ''.'' = (Inl YeditException, PDict [(''x'', PInt 1)])"
proof -
  have v: "valid_key ''x.y'' ''.''" by code_simp
  have p: "parse_key ''x.y'' ''.'' = [] @ ([], ''x'') # [([], ''y'')]" by code_simp
  have r: "[([], ''y'')] \<noteq> ([] :: token list)" by simp
  have g: "get_loop (PDict [(''x'', PInt 1)]) ([] @ [([], ''x'')]) = Inr (PInt 1)" by code_simp
  have s: "is_scalar (PInt 1)" by (simp add: is_scalar_def is_container_def)
  have t: "truthy (PInt 1)" by simp
  have n: "PInt 2 \<noteq> PNone" by simp
  from put_through_scalar_raises [OF v p r g s t n] v p g s t show ?thesis by simp
qed

text \<open>Claim C4 as the specification states it fails for a scalar that is false in
  Python's sense: on \<^verbatim>\<open>{x: 0}\<close>, \<^verbatim>\<open>put\<close> with path \<^verbatim>\<open>x.y\<close> replaces the \<^verbatim>\<open>0\<close> by a new
  mapping, raises nothing and reports a change.\<close>

theorem falsy_scalar_overwritten_counterexample:
  "valid_key ''x.y'' ''.''
   \<and> parse_key ''x.y'' ''.'' = [([], ''x''), ([], ''y'')]
   \<and> get_loop (PDict [(''x'', PInt 0)]) [([], ''x'')] = Inr (PInt 0)
   \<and> put (PDict [(''x'', PInt 0)]) ''x.y'' (PInt 2) ''.''
       = (Inr True, PDict [(''x'', PDict [(''y'', PInt 2)])])"
  by code_simp

section \<open>What the operations raise\<close>

text \<open>A lookup that meets a mapping without the key of the step, or a list that ends
  before the index of the step, returns \<^verbatim>\<open>None\<close>.\<close>

lemma get_loop_missing_key:
  assumes "get_loop t pre = Inr (PDict kvs)" and "dict_key \<notin> fst ` set kvs"
  shows "get_loop t (pre @ (arr_ind, dict_key) # rest) = Inr PNone"
  using assms by (simp add: get_loop_append dict_get_missing)

lemma get_missing_is_none:
  assumes "parse_key path sep = pre @ (arr_ind, dict_key) # rest"
      and "(get_loop t pre = Inr (PDict kvs) \<and> dict_key \<notin> fst ` set kvs)
         \<or> (get_loop t pre = Inr (PList xs) \<and> int (length xs) \<le> py_int arr_ind)"
  shows "get t path sep = Inr PNone"
proof -
  from assms(2) have "get_loop t (pre @ (arr_ind, dict_key) # rest) = Inr PNone"
    using get_loop_missing_key [of t pre kvs dict_key arr_ind rest]
          get_loop_past_end [of t pre xs arr_ind dict_key rest]
    by blast
  with assms(1) have "get_loop t (parse_key path sep) = Inr PNone" by simp
  moreover from assms(1) have "path \<noteq> []" by auto
  ultimately have "get_entry t path sep = Inr PNone" by (simp add: get_entry_def)
  then show ?thesis by (simp add: get_def entry_of_def)
qed

lemma nonneg_steps_Cons:
  "nonneg_steps ((a, d) # toks) \<longleftrightarrow> 0 \<le> py_int a \<and> nonneg_steps toks"
  by (simp add: nonneg_steps_def)

lemma list_get_nonneg:
  "0 \<le> i \<Longrightarrow> i \<le> int (length xs) - 1 \<Longrightarrow> list_get xs i = Inr (xs ! nat i)"
  by (simp add: list_get_def norm_index_def)

lemma list_set_nonneg:
  "0 \<le> i \<Longrightarrow> i \<le> int (length xs) - 1 \<Longrightarrow> list_set xs i v = Inr (xs[nat i := v])"
  by (simp add: list_set_def norm_index_def)

lemma add_loop_errors:
  "nonneg_steps toks \<Longrightarrow> toks \<noteq> [] \<Longrightarrow> add_loop data toks item = Inl e
   \<Longrightarrow> e = YeditException \<or> e = TypeError"
proof (induction data toks item rule: add_loop.induct)
  case (1 data item)
  then show ?case by simp
next
  case (2 data arr_ind dict_key item)
  then show ?case
    by (auto simp: nonneg_steps_Cons list_set_nonneg split: pyval.splits if_splits)
next
  case (3 data arr_ind dict_key t ts item)
  from "3.prems"(1) have nn: "0 \<le> py_int arr_ind" and rest: "nonneg_steps (t # ts)"
    by (simp_all add: nonneg_steps_Cons)
  note prem = "3.prems"(3)
  show ?case
  proof (cases "dict_key \<noteq> []")
    case True
    show ?thesis
    proof (cases data)
      case (PDict kvs)
      define start where
        "start = (if dict_key \<in> fst ` set kvs \<and> truthy (dict_get kvs dict_key)
                  then dict_get kvs dict_key else PDict [])"
      have "add_loop start (t # ts) item = Inl e"
      proof (cases "add_loop start (t # ts) item")
        case (Inl x)
        with prem True PDict show ?thesis by (simp add: start_def)
      next
        case (Inr p)
        with prem True PDict show ?thesis by (cases p) (simp add: start_def)
      qed
      from "3.IH"(1) [OF True PDict rest _ this [unfolded start_def]] show ?thesis by simp
    qed (use prem True in \<open>auto split: if_splits\<close>)
  next
    case False
    show ?thesis
    proof (cases data)
      case (PList xs)
      show ?thesis
      proof (cases "arr_ind \<noteq> [] \<and> py_int arr_ind \<le> int (length xs) - 1")
        case b: True
        with nn have g: "list_get xs (py_int arr_ind) = Inr (xs ! nat (py_int arr_ind))"
          by (simp add: list_get_nonneg)
        from b nn have s: "\<And>c. list_set xs (py_int arr_ind) c = Inr (xs[nat (py_int arr_ind) := c])"
          by (simp add: list_set_nonneg)
        from prem False PList b g s
        have "add_loop (xs ! nat (py_int arr_ind)) (t # ts) item = Inl e"
          by (auto split: sum.splits prod.splits)
        from "3.IH"(2) [OF False PList b g rest _ this] show ?thesis by simp
      next
        case False
        with prem PList \<open>\<not> dict_key \<noteq> []\<close> show ?thesis by (auto split: if_splits)
      qed
    qed (use prem False in auto)
  qed
qed

lemma entry_of_nonneg:
  "nonneg_steps (parse_key path sep) \<Longrightarrow> \<exists>v. entry_of t path sep = Inr v"
  using get_entry_nonneg [of path sep t] by (simp add: get_def)

lemma get_entry_nonneg_raw:
  "nonneg_steps (parse_key path sep) \<Longrightarrow> \<exists>v. get_entry t path sep = Inr v"
  using get_loop_nonneg [of "parse_key path sep" t] by (auto simp: get_entry_def)

lemma put_errors:
  assumes "nonneg_steps (parse_key path sep)" and "path = [] \<or> parse_key path sep \<noteq> []"
      and "fst (put t path val sep) = Inl e"
  shows "e = YeditException \<or> e = TypeError"
proof -
  from entry_of_nonneg [OF assms(1)] obtain v where v: "entry_of t path sep = Inr v" by blast
  with assms(3) have a: "add_entry t path val sep = Inl e"
    by (auto simp: put_def split: if_splits sum.splits prod.splits)
  with assms(2) have "add_loop t (parse_key path sep) val = Inl e" "parse_key path sep \<noteq> []"
    by (auto simp: add_entry_def split: if_splits)
  with add_loop_errors [OF assms(1)] show ?thesis by blast
qed

lemma list_entry_errors:
  assumes "nonneg_steps (parse_key path sep)" and "path = [] \<or> parse_key path sep \<noteq> []"
      and "fst (list_entry t path sep) = Inl e"
  shows "e = YeditException \<or> e = TypeError"
proof -
  from entry_of_nonneg [OF assms(1)] obtain v where v: "entry_of t path sep = Inr v" by blast
  obtain r t' where p: "put t path (PList []) sep = (r, t')" by (cases "put t path (PList []) sep")
  from get_entry_nonneg_raw [OF assms(1)] obtain w where w: "get_entry t' path sep = Inr w"
    by blast
  from assms(3) v p w have "r = Inl e"
    by (auto simp: list_entry_def split: if_splits sum.splits)
  with put_errors [OF assms(1,2), of t "PList []" e] p show ?thesis by simp
qed

lemma append_errors:
  assumes "nonneg_steps (parse_key path sep)" and "path = [] \<or> parse_key path sep \<noteq> []"
      and "fst (append t path val sep) = Inl e"
  shows "e = YeditException \<or> e = TypeError"
proof -
  from assms(3) have "fst (list_entry t path sep) = Inl e"
    by (auto simp: append_def split: prod.splits sum.splits pyval.splits)
  with list_entry_errors [OF assms(1,2)] show ?thesis by blast
qed

lemma insert_at_errors:
  assumes "nonneg_steps (parse_key path sep)" and "path = [] \<or> parse_key path sep \<noteq> []"
      and "fst (insert_at t path val pos sep) = Inl e"
  shows "e = YeditException \<or> e = TypeError"
proof -
  from assms(3) have "fst (list_entry t path sep) = Inl e"
    by (auto simp: insert_at_def split: prod.splits sum.splits pyval.splits)
  with list_entry_errors [OF assms(1,2)] show ?thesis by blast
qed

lemma dict_pop_found: "dict_contains kvs item = Inr True \<Longrightarrow> \<exists>kvs'. dict_pop kvs item = Inr kvs'"
  by (cases item; cases kvs) auto

lemma dict_contains_errors:
  "dict_contains kvs item = Inl e \<Longrightarrow> e = TypeError \<and> is_container item"
  by (cases item) (auto simp: is_container_def)

lemma pop_errors:
  assumes "nonneg_steps (parse_key path sep)" and "fst (pop t path item sep) = Inl e"
  shows "e = TypeError \<and> is_container item"
proof -
  from entry_of_nonneg [OF assms(1)] obtain v where v: "entry_of t path sep = Inr v" by blast
  with assms(2) show ?thesis
    by (auto simp: pop_def split: pyval.splits sum.splits option.splits if_splits
             dest: dict_pop_found dict_contains_errors)
qed

lemma update_errors:
  assumes "nonneg_steps (parse_key path sep)" and "fst (update t path val None cv sep) = Inl e"
  shows "e = YeditException \<and> \<not> is_dict val \<and> (\<exists>kvs. get t path sep = Inr (PDict kvs))"
proof -
  from entry_of_nonneg [OF assms(1)] obtain v where v: "entry_of t path sep = Inr v" by blast
  show ?thesis
  proof (cases v)
    case (PList xs)
    show ?thesis
    proof (cases "truthy cv")
      case True
      show ?thesis
      proof (cases "list_index xs cv")
        case None
        with assms(2) v PList True show ?thesis by (simp add: update_def)
      next
        case (Some i)
        from list_index_Some [OF Some] have "i < length xs" by simp
        with assms(2) v PList True Some show ?thesis
          by (auto simp: update_def update_list_def list_get_nat list_set_nat
                   split: sum.splits option.splits if_splits)
      qed
    next
      case False
      with assms(2) v PList show ?thesis
        by (auto simp: update_def update_list_def split: sum.splits option.splits)
    qed
  qed (use assms(2) v in \<open>auto simp: update_def get_def split: pyval.splits\<close>)
qed

lemma remove_loop_no_error:
  "get_loop t toks = Inr e \<Longrightarrow> e \<noteq> PNone \<Longrightarrow> toks \<noteq> [] \<Longrightarrow> \<exists>r. remove_loop t toks = Inr r"
proof (induction t toks arbitrary: e rule: remove_loop.induct)
  case (1 data)
  then show ?case by simp
next
  case (2 data arr_ind dict_key)
  show ?case
  proof (cases data)
    case (PList xs)
    with 2 show ?thesis
      by (auto simp: list_get_def list_del_def split: if_splits option.splits)
  next
    case (PDict kvs)
    with 2 have "dict_key \<noteq> []" "dict_get kvs dict_key \<noteq> PNone" by (auto split: if_splits)
    with dict_get_missing [of dict_key kvs] have "dict_key \<in> fst ` set kvs" by auto
    with PDict show ?thesis by auto
  qed (use 2 in auto)
next
  case (3 data arr_ind dict_key t ts)
  show ?case
  proof (cases data)
    case (PList xs)
    with "3.prems" have b: "arr_ind \<noteq> []" "py_int arr_ind \<le> int (length xs) - 1"
      by (auto split: if_splits)
    with "3.prems" PList obtain v where g: "list_get xs (py_int arr_ind) = Inr v"
      and l: "get_loop v (t # ts) = Inr e"
      by (auto split: sum.splits)
    from g obtain j where j: "norm_index xs (py_int arr_ind) = Some j"
      by (auto simp: list_get_def split: option.splits)
    from "3.IH"(1) [OF PList _ g l "3.prems"(2)] b obtain r where "remove_loop v (t # ts) = Inr r"
      by auto
    with PList b g j show ?thesis by (cases r) (simp add: list_set_def)
  next
    case (PDict kvs)
    with "3.prems" have d: "dict_key \<noteq> []"
      and l: "get_loop (dict_get kvs dict_key) (t # ts) = Inr e"
      by (auto split: if_splits)
    from "3.IH"(2) [OF PDict d l "3.prems"(2)] obtain r
      where "remove_loop (dict_get kvs dict_key) (t # ts) = Inr r" by auto
    with PDict d show ?thesis by (cases r) simp
  qed (use "3.prems" in auto)
qed

lemma delete_no_error:
  assumes "is_container t" and "nonneg_steps (parse_key path sep)"
      and "path = [] \<or> parse_key path sep \<noteq> []"
      and "path \<noteq> [] \<or> (index = None \<and> item = PNone)"
  shows "\<exists>b. fst (delete t path index item sep) = Inr b"
proof -
  from entry_of_nonneg [OF assms(2)] obtain v where v: "entry_of t path sep = Inr v" by blast
  show ?thesis
  proof (cases "v = PNone")
    case True
    with v show ?thesis by (auto simp: delete_def)
  next
    case vn: False
    have "\<exists>r. remove_entry t path index item sep = Inr r"
    proof (cases "path = []")
      case True
      with assms(1,4) show ?thesis
        by (cases t) (auto simp: remove_entry_def is_container_def)
    next
      case ne: False
      with assms(3) have toks: "parse_key path sep \<noteq> []" by simp
      show ?thesis
      proof (cases "valid_key path sep")
        case True
        with v vn ne have "get_loop t (parse_key path sep) = Inr v"
          by (auto simp: entry_of_def get_entry_def split: sum.splits if_splits)
        from remove_loop_no_error [OF this vn toks] ne True show ?thesis
          by (auto simp: remove_entry_def split: pyval.splits)
      next
        case False
        with ne assms(1) show ?thesis
          by (auto simp: remove_entry_def split: pyval.splits)
      qed
    qed
    then obtain r d where "remove_entry t path index item sep = Inr (r, d)" by auto
    with v vn show ?thesis by (auto simp: delete_def)
  qed
qed


lemma unresolved_is_noop:
  assumes "get t path sep = Inr PNone"
  shows "pop t path item sep = (Inr False, t) \<and> delete t path index item sep = (Inr False, t)
       \<and> update t path val index cv sep = (Inr False, t)"
  using assms by (simp add: get_def pop_def delete_def update_def)

text \<open>
  Claim C2, as the code has it. Take a document whose root is a mapping or a sequence and
  a path that is the root path or has at least one step, none of its list steps being
  negative. Then \<^verbatim>\<open>get\<close> never raises; where it returns \<^verbatim>\<open>None\<close>, \<^verbatim>\<open>pop\<close>, \<^verbatim>\<open>delete\<close> and
  \<^verbatim>\<open>update\<close> report no change and keep the document; \<^verbatim>\<open>pop\<close> raises nothing but
  \<^verbatim>\<open>TypeError\<close>, for an unhashable item; \<^verbatim>\<open>delete\<close> never raises (at the root path:
  without \<^verbatim>\<open>index\<close> and \<^verbatim>\<open>value\<close>); \<^verbatim>\<open>update\<close> without \<^verbatim>\<open>index\<close> raises nothing but
  \<^verbatim>\<open>YeditException\<close>, for a mapping that is to be updated with a value that is not one; and
  \<^verbatim>\<open>put\<close>, \<^verbatim>\<open>append\<close> and \<^verbatim>\<open>insert\<close> raise nothing but the \<^verbatim>\<open>YeditException\<close> or
  \<^verbatim>\<open>TypeError\<close> of \<^verbatim>\<open>add_entry\<close>, which it raises for a value of the wrong type on the way
  and also for a list index out of bounds.
\<close>

theorem not_found_never_raises:
  assumes "is_container t" and "nonneg_steps (parse_key path sep)"
      and "path = [] \<or> parse_key path sep \<noteq> []"
  shows "(\<exists>v. get t path sep = Inr v)
       \<and> (get t path sep = Inr PNone
            \<longrightarrow> pop t path item sep = (Inr False, t) \<and> delete t path index item sep = (Inr False, t)
              \<and> update t path val index cv sep = (Inr False, t))
       \<and> (fst (pop t path item sep) = Inl e \<longrightarrow> e = TypeError \<and> is_container item)
       \<and> (path \<noteq> [] \<longrightarrow> (\<exists>b. fst (delete t path index item sep) = Inr b))
       \<and> (\<exists>b. fst (delete t path None PNone sep) = Inr b)
       \<and> (fst (update t path val None cv sep) = Inl e
            \<longrightarrow> e = YeditException \<and> \<not> is_dict val \<and> (\<exists>kvs. get t path sep = Inr (PDict kvs)))
       \<and> (fst (put t path val sep) = Inl e \<longrightarrow> e = YeditException \<or> e = TypeError)
       \<and> (fst (append t path val sep) = Inl e \<longrightarrow> e = YeditException \<or> e = TypeError)
       \<and> (fst (insert_at t path val pos sep) = Inl e \<longrightarrow> e = YeditException \<or> e = TypeError)"
proof -
  have a: "\<exists>v. get t path sep = Inr v"
    using assms(2) by (rule get_entry_nonneg)
  have b: "get t path sep = Inr PNone
            \<longrightarrow> pop t path item sep = (Inr False, t) \<and> delete t path index item sep = (Inr False, t)
              \<and> update t path val index cv sep = (Inr False, t)"
    using unresolved_is_noop [of t path sep item index val cv] by blast
  have c: "fst (pop t path item sep) = Inl e \<longrightarrow> e = TypeError \<and> is_container item"
    using pop_errors [OF assms(2)] by blast
  have d: "path \<noteq> [] \<longrightarrow> (\<exists>b. fst (delete t path index item sep) = Inr b)"
    using delete_no_error [OF assms, of index item] by blast
  have d': "\<exists>b. fst (delete t path None PNone sep) = Inr b"
    using delete_no_error [OF assms, of None PNone] by blast
  have f: "fst (update t path val None cv sep) = Inl e
            \<longrightarrow> e = YeditException \<and> \<not> is_dict val \<and> (\<exists>kvs. get t path sep = Inr (PDict kvs))"
    using update_errors [OF assms(2)] by blast
  have g: "fst (put t path val sep) = Inl e \<longrightarrow> e = YeditException \<or> e = TypeError"
    using put_errors [OF assms(2,3)] by blast
  have h: "fst (append t path val sep) = Inl e \<longrightarrow> e = YeditException \<or> e = TypeError"
    using append_errors [OF assms(2,3)] by blast
  have i: "fst (insert_at t path val pos sep) = Inl e \<longrightarrow> e = YeditException \<or> e = TypeError"
    using insert_at_errors [OF assms(2,3)] by blast
  from a b c d d' f g h i show ?thesis by blast
qed

theorem not_found_never_raises_witness:
  "is_container (PDict [(''a'', PList [PInt 1])])
   \<and> nonneg_steps (parse_key ''a[5].b'' ''.'')
   \<and> parse_key ''a[5].b'' ''.'' \<noteq> []
   \<and> get (PDict [(''a'', PList [PInt 1])]) ''a[5].b'' ''.'' = Inr PNone
   \<and> pop (PDict [(''a'', PList [PInt 1])]) ''a[5].b'' (PStr ''k'') ''.''
       = (Inr False, PDict [(''a'', PList [PInt 1])])
   \<and> delete (PDict [(''a'', PList [PInt 1])]) ''a[5].b'' None (PStr ''k'') ''.''
       = (Inr False, PDict [(''a'', PList [PInt 1])])
   \<and> fst (put (PDict [(''a'', PList [PInt 1])]) ''a[5].b'' (PInt 7) ''.'') = Inl YeditException"
proof -
  have c: "is_container (PDict [(''a'', PList [PInt 1])])" by (simp add: is_container_def)
  have n: "nonneg_steps (parse_key ''a[5].b'' ''.'')" by code_simp
  have p: "''a[5].b'' = [] \<or> parse_key ''a[5].b'' ''.'' \<noteq> []" by code_simp
  have g: "get (PDict [(''a'', PList [PInt 1])]) ''a[5].b'' ''.'' = Inr PNone" by code_simp
  have u: "fst (put (PDict [(''a'', PList [PInt 1])]) ''a[5].b'' (PInt 7) ''.'') = Inl YeditException"
    by code_simp
  from not_found_never_raises [OF c n p, where item = "PStr ''k''" and index = None
         and val = "PInt 7" and e = YeditException] c n p g u
  show ?thesis by simp
qed

text \<open>Claim C2 as the specification states it fails: on \<^verbatim>\<open>{a: [1]}\<close> the valid path
  \<^verbatim>\<open>a[5]\<close> resolves to nothing, and \<^verbatim>\<open>put\<close> and \<^verbatim>\<open>append\<close> raise \<^verbatim>\<open>YeditException\<close> for
  it.\<close>

theorem index_out_of_bounds_raises_counterexample:
  "valid_key ''a[5]'' ''.''
   \<and> get (PDict [(''a'', PList [PInt 1])]) ''a[5]'' ''.'' = Inr PNone
   \<and> put (PDict [(''a'', PList [PInt 1])]) ''a[5]'' (PInt 7) ''.''
       = (Inl YeditException, PDict [(''a'', PList [PInt 1])])
   \<and> append (PDict [(''a'', PList [PInt 1])]) ''a[5]'' (PInt 7) ''.''
       = (Inl YeditException, PDict [(''a'', PList [PInt 1])])"
  by code_simp

section \<open>The target file during a write\<close>

lemma tmp_filename_differs: "tmp_filename filename \<noteq> filename"
  by (simp add: tmp_filename_def)

lemma write_chunks_other:
  "s \<in> set (write_chunks f p cs) \<Longrightarrow> q \<noteq> p \<Longrightarrow> s q = f q"
  by (induction cs arbitrary: f) auto

lemma write_chunks_last:
  "last (f # write_chunks f p cs) p = (if cs = [] then f p else Some (file_text f p @ concat cs))"
  by (induction cs arbitrary: f) (auto simp: file_text_def)

lemma before_rename_keeps_target:
  "s \<in> set (before_rename f filename w) \<Longrightarrow> s filename = f filename"
  using tmp_filename_differs [of filename]
  by (auto simp: before_rename_def split: option.splits dest!: write_chunks_other [where q = filename])

lemma before_rename_nonempty: "before_rename f filename w \<noteq> []"
  by (simp add: before_rename_def split: option.splits)

lemma before_rename_hd: "hd (before_rename f filename w) = f"
  by (simp add: before_rename_def split: option.splits)

lemma before_rename_tmp:
  "f filename \<noteq> None \<Longrightarrow>
   last (before_rename f filename w) (tmp_filename filename) = Some (concat (chunks w))"
  using write_chunks_last [of "f(tmp_filename filename \<mapsto> [])" "tmp_filename filename" "chunks w"]
  by (auto simp: before_rename_def file_text_def split: option.splits)

lemma renamed_target:
  "f filename \<noteq> None \<Longrightarrow>
   rename (last (before_rename f filename w)) (tmp_filename filename) filename filename
     = Some (concat (chunks w))"
  using tmp_filename_differs [of filename] by (simp add: rename_def before_rename_tmp)

lemma write_states_shape:
  "\<exists>pre. (\<forall>s\<in>set pre. s filename = f filename) \<and> pre \<noteq> [] \<and> hd pre = f
     \<and> (write_states f filename w = pre
          \<or> (\<exists>r. write_states f filename w = pre @ [r] \<and> \<not> raises w
                 \<and> r filename = Some (concat (chunks w))))"
proof (cases "f filename = None \<or> raises w")
  case True
  then have "write_states f filename w = before_rename f filename w"
    by (simp add: write_states_def)
  moreover have "\<forall>s\<in>set (before_rename f filename w). s filename = f filename"
    using before_rename_keeps_target by blast
  ultimately show ?thesis
    using before_rename_nonempty [of f filename w] before_rename_hd [of f filename w] by blast
next
  case False
  then have "write_states f filename w = before_rename f filename w
       @ [rename (last (before_rename f filename w)) (tmp_filename filename) filename]"
    by (simp add: write_states_def)
  moreover from False have "rename (last (before_rename f filename w)) (tmp_filename filename) filename filename
     = Some (concat (chunks w))" by (simp add: renamed_target)
  moreover from False have "\<not> raises w" by simp
  moreover have "\<forall>s\<in>set (before_rename f filename w). s filename = f filename"
    using before_rename_keeps_target by blast
  ultimately show ?thesis
    using before_rename_nonempty [of f filename w] before_rename_hd [of f filename w] by blast
qed

lemma backup_states_keep_target:
  "s \<in> set (backup_states f filename backup_ext) \<Longrightarrow> s filename = f filename"
  by (auto simp: backup_states_def split: if_splits)

lemma yedit_write_shape:
  "\<exists>pre. (\<forall>s\<in>set pre. s filename = f filename)
     \<and> (yedit_write f filename backup backup_ext content_type dump yaml_dict = pre
          \<or> (\<exists>r. yedit_write f filename backup backup_ext content_type dump yaml_dict = pre @ [r]
                 \<and> \<not> raises (dump content_type yaml_dict)
                 \<and> r filename = Some (concat (chunks (dump content_type yaml_dict)))))"
proof -
  define bs where
    "bs = f # (if backup \<and> f filename \<noteq> None then backup_states f filename backup_ext else [])"
  have bs: "\<forall>s\<in>set bs. s filename = f filename"
    by (auto simp: bs_def dest: backup_states_keep_target)
  have bne: "bs \<noteq> []" by (simp add: bs_def)
  then have "last bs \<in> set bs" by simp
  with bs have lb: "last bs filename = f filename" by blast
  show ?thesis
  proof (cases "filename = [] \<or> (backup \<and> f filename \<noteq> None \<and> backup_states f filename backup_ext = [])
                 \<or> \<not> (content_type = ''yaml'' \<or> content_type = ''json'')")
    case True
    then have "yedit_write f filename backup backup_ext content_type dump yaml_dict = [f]
             \<or> yedit_write f filename backup backup_ext content_type dump yaml_dict = bs"
      by (auto simp: yedit_write_def bs_def Let_def)
    then show ?thesis
    proof
      assume "yedit_write f filename backup backup_ext content_type dump yaml_dict = [f]"
      moreover have "\<forall>s\<in>set [f]. s filename = f filename" by simp
      ultimately show ?thesis by blast
    next
      assume "yedit_write f filename backup backup_ext content_type dump yaml_dict = bs"
      with bs show ?thesis by blast
    qed
  next
    case False
    then have y: "yedit_write f filename backup backup_ext content_type dump yaml_dict
        = bs @ tl (write_states (last bs) filename (dump content_type yaml_dict))"
      by (auto simp: yedit_write_def bs_def Let_def)
    from write_states_shape [of filename "last bs" "dump content_type yaml_dict"]
    obtain pre where p: "\<forall>s\<in>set pre. s filename = last bs filename" and pne: "pre \<noteq> []"
      and w: "write_states (last bs) filename (dump content_type yaml_dict) = pre
          \<or> (\<exists>r. write_states (last bs) filename (dump content_type yaml_dict) = pre @ [r]
                 \<and> \<not> raises (dump content_type yaml_dict)
                 \<and> r filename = Some (concat (chunks (dump content_type yaml_dict))))"
      by blast
    have "set (tl pre) \<subseteq> set pre" using pne by (cases pre) auto
    with p lb bs have tp: "\<forall>s\<in>set (bs @ tl pre). s filename = f filename"
      by auto
    from w show ?thesis
    proof
      assume "write_states (last bs) filename (dump content_type yaml_dict) = pre"
      with y have "yedit_write f filename backup backup_ext content_type dump yaml_dict
          = bs @ tl pre" by simp
      with tp show ?thesis by blast
    next
      assume "\<exists>r. write_states (last bs) filename (dump content_type yaml_dict) = pre @ [r]
                 \<and> \<not> raises (dump content_type yaml_dict)
                 \<and> r filename = Some (concat (chunks (dump content_type yaml_dict)))"
      then obtain r where r: "write_states (last bs) filename (dump content_type yaml_dict) = pre @ [r]"
        and nr: "\<not> raises (dump content_type yaml_dict)"
        and rn: "r filename = Some (concat (chunks (dump content_type yaml_dict)))" by blast
      from r pne y have "yedit_write f filename backup backup_ext content_type dump yaml_dict
          = (bs @ tl pre) @ [r]" by simp
      with tp rn nr show ?thesis by blast
    qed
  qed
qed

lemma yedit_write_completes:
  assumes "filename \<noteq> []" and "f filename \<noteq> None"
      and "\<not> backup \<or> backup_ext \<noteq> []"
      and "content_type = ''yaml'' \<or> content_type = ''json''"
      and "\<not> raises (dump content_type yaml_dict)"
  shows "last (yedit_write f filename backup backup_ext content_type dump yaml_dict) filename
           = Some (concat (chunks (dump content_type yaml_dict)))"
proof -
  define bs where
    "bs = f # (if backup \<and> f filename \<noteq> None then backup_states f filename backup_ext else [])"
  have "\<forall>s\<in>set bs. s filename = f filename"
    by (auto simp: bs_def dest: backup_states_keep_target)
  moreover have "last bs \<in> set bs" by (simp add: bs_def)
  ultimately have lb: "last bs filename \<noteq> None" using assms(2) by auto
  from assms have y: "yedit_write f filename backup backup_ext content_type dump yaml_dict
        = bs @ tl (write_states (last bs) filename (dump content_type yaml_dict))"
    by (auto simp: yedit_write_def bs_def Let_def backup_states_def)
  from lb assms(5) have "write_states (last bs) filename (dump content_type yaml_dict)
     = before_rename (last bs) filename (dump content_type yaml_dict)
       @ [rename (last (before_rename (last bs) filename (dump content_type yaml_dict)))
            (tmp_filename filename) filename]"
    by (simp add: write_states_def)
  with y before_rename_nonempty [of "last bs" filename "dump content_type yaml_dict"]
       renamed_target [of "last bs" filename "dump content_type yaml_dict"] lb
  show ?thesis by simp
qed

text \<open>
  Claim C1. In every state that a call of \<^verbatim>\<open>Yedit.write\<close> goes through, the target path
  shows either what it showed before the call or the complete new text. Every state but
  the last one shows what the target showed before, and so does every state of a call
  whose serialiser raises: an interruption before \<^verbatim>\<open>os.rename\<close> leaves the original file in
  place, whole. A call that runs to its end on an existing file leaves the complete new
  text at the target path.
\<close>

theorem durable_write:
  assumes "k < length (yedit_write f filename backup backup_ext content_type dump yaml_dict)"
  shows "((yedit_write f filename backup backup_ext content_type dump yaml_dict ! k) filename = f filename
          \<or> (yedit_write f filename backup backup_ext content_type dump yaml_dict ! k) filename
               = Some (concat (chunks (dump content_type yaml_dict))))
       \<and> (Suc k < length (yedit_write f filename backup backup_ext content_type dump yaml_dict)
            \<longrightarrow> (yedit_write f filename backup backup_ext content_type dump yaml_dict ! k) filename
                  = f filename)
       \<and> (raises (dump content_type yaml_dict)
            \<longrightarrow> (yedit_write f filename backup backup_ext content_type dump yaml_dict ! k) filename
                  = f filename)
       \<and> (filename \<noteq> [] \<and> f filename \<noteq> None \<and> (\<not> backup \<or> backup_ext \<noteq> [])
            \<and> (content_type = ''yaml'' \<or> content_type = ''json'')
            \<and> \<not> raises (dump content_type yaml_dict)
            \<longrightarrow> last (yedit_write f filename backup backup_ext content_type dump yaml_dict) filename
                  = Some (concat (chunks (dump content_type yaml_dict))))"
proof -
  let ?S = "yedit_write f filename backup backup_ext content_type dump yaml_dict"
  let ?new = "concat (chunks (dump content_type yaml_dict))"
  from yedit_write_shape [of filename f backup backup_ext content_type dump yaml_dict]
  obtain pre where p: "\<forall>s\<in>set pre. s filename = f filename"
    and s: "?S = pre \<or> (\<exists>r. ?S = pre @ [r] \<and> \<not> raises (dump content_type yaml_dict)
                            \<and> r filename = Some ?new)"
    by blast
  have a: "(?S ! k) filename = f filename \<or> (?S ! k) filename = Some ?new"
    using s p assms by (auto simp: nth_append)
  have b: "Suc k < length ?S \<longrightarrow> (?S ! k) filename = f filename"
    using s p assms by (auto simp: nth_append)
  have c: "raises (dump content_type yaml_dict) \<longrightarrow> (?S ! k) filename = f filename"
    using s p assms by auto
  have d: "filename \<noteq> [] \<and> f filename \<noteq> None \<and> (\<not> backup \<or> backup_ext \<noteq> [])
            \<and> (content_type = ''yaml'' \<or> content_type = ''json'')
            \<and> \<not> raises (dump content_type yaml_dict)
            \<longrightarrow> last ?S filename = Some ?new"
    using yedit_write_completes [of filename f backup backup_ext content_type dump yaml_dict]
    by blast
  from a b c d show ?thesis by blast
qed


theorem durable_write_witness:
  "4 < length (yedit_write (Map.empty(''f'' \<mapsto> ''old'')) ''f'' True ''.bak'' ''yaml''
                 (\<lambda>ct t. \<lparr>chunks = [''ne'', ''w''], raises = False\<rparr>) (PDict []))
   \<and> Suc 4 < length (yedit_write (Map.empty(''f'' \<mapsto> ''old'')) ''f'' True ''.bak'' ''yaml''
                 (\<lambda>ct t. \<lparr>chunks = [''ne'', ''w''], raises = False\<rparr>) (PDict []))
   \<and> (yedit_write (Map.empty(''f'' \<mapsto> ''old'')) ''f'' True ''.bak'' ''yaml''
                 (\<lambda>ct t. \<lparr>chunks = [''ne'', ''w''], raises = False\<rparr>) (PDict []) ! 4) ''f.yedit''
       = Some ''ne''
   \<and> (yedit_write (Map.empty(''f'' \<mapsto> ''old'')) ''f'' True ''.bak'' ''yaml''
                 (\<lambda>ct t. \<lparr>chunks = [''ne'', ''w''], raises = False\<rparr>) (PDict []) ! 4) ''f''
       = Some ''old''
   \<and> last (yedit_write (Map.empty(''f'' \<mapsto> ''old'')) ''f'' True ''.bak'' ''yaml''
                 (\<lambda>ct t. \<lparr>chunks = [''ne'', ''w''], raises = False\<rparr>) (PDict [])) ''f''
       = Some ''new''"
proof -
  let ?S = "yedit_write (Map.empty(''f'' \<mapsto> ''old'')) ''f'' True ''.bak'' ''yaml''
                 (\<lambda>ct t. \<lparr>chunks = [''ne'', ''w''], raises = False\<rparr>) (PDict [])"
  have l: "length ?S = 7"
    by (simp add: yedit_write_def backup_states_def write_states_def before_rename_def
                  tmp_filename_def file_text_def)
  have t: "(?S ! 4) ''f.yedit'' = Some ''ne''"
    by (simp add: yedit_write_def backup_states_def write_states_def before_rename_def
                  tmp_filename_def file_text_def rename_def)
  have h: "4 < length ?S" using l by simp
  from durable_write [OF h] l t show ?thesis by simp
qed

end
